theory Spec2Isabelle
  imports Complex_Main
begin

section \<open>Numbers and array reads\<close>

text \<open>
  Pixel coordinates are JavaScript numbers. They are modelled as rationals with exact
  arithmetic; the values NaN and the infinities are not pixel coordinates of the model.
  Indices are JavaScript numbers that hold integers; they are modelled as \<open>int\<close>.
  Comparisons of doubles are exact, so the search and the index computations are the same
  in the model and in the source. Sums and differences of doubles are rounded: in the
  source \<open>prev + Math.min(delta, x + width - travellerWidth - prev)\<close> can come out above
  \<open>x + width - travellerWidth\<close>. What is proved about positions is therefore stated
  for pixel values on which the arithmetic of doubles is exact (\<open>exact_pixel\<close> below).

  Reading an array outside its bounds gives \<open>undefined\<close> in JavaScript, and every
  comparison with \<open>undefined\<close> is false. \<open>js_index\<close> is the array read,
  \<open>js_gt\<close> is \<open>a > x\<close> and \<open>js_ge\<close> is \<open>x >= a\<close> for a value \<open>a\<close> read from an array.
\<close>

definition js_index :: "rat list \<Rightarrow> int \<Rightarrow> rat option" where
  "js_index xs i = (if 0 \<le> i \<and> i < int (length xs) then Some (xs ! nat i) else None)"

fun js_gt :: "rat option \<Rightarrow> rat \<Rightarrow> bool" where
  "js_gt None x = False"
| "js_gt (Some v) x = (v > x)"

fun js_ge :: "rat \<Rightarrow> rat option \<Rightarrow> bool" where
  "js_ge x None = False"
| "js_ge x (Some v) = (x \<ge> v)"

section \<open>getIndexInRange\<close>

text \<open>
  The body of the \<open>while\<close> loop of \<open>getIndexInRange\<close>, on the pair of search bounds:
  \<^verbatim>\<open>
    const middle = Math.floor((start + end) / 2);
    if (valueRange[middle] > x) { end = middle; } else { start = middle; }
  \<close>
  On integers \<open>Math.floor((start + end) / 2)\<close> is \<open>(start + end) div 2\<close>.
\<close>

definition getIndexInRange_step :: "rat list \<Rightarrow> rat \<Rightarrow> int \<times> int \<Rightarrow> int \<times> int" where
  "getIndexInRange_step valueRange x b =
     (case b of (start, end') \<Rightarrow>
        let middle = (start + end') div 2
        in if js_gt (js_index valueRange middle) x then (start, middle) else (middle, end'))"

text \<open>The loop \<open>while (end - start > 1) { ... }\<close>; it returns the final bounds.\<close>

function getIndexInRange_loop :: "rat list \<Rightarrow> rat \<Rightarrow> int \<times> int \<Rightarrow> int \<times> int" where
  "getIndexInRange_loop valueRange x b =
     (if snd b - fst b > 1
      then getIndexInRange_loop valueRange x (getIndexInRange_step valueRange x b)
      else b)"
  by pat_completeness auto
termination
  by (relation "measure (\<lambda>(valueRange, x, b). nat (snd b - fst b))")
     (auto simp: getIndexInRange_step_def Let_def split: prod.splits)

declare getIndexInRange_loop.simps [simp del]

text \<open>
  \<^verbatim>\<open>
  function getIndexInRange(valueRange: number[], x: number) {
    const len = valueRange.length;
    let start = 0;
    let end = len - 1;
    while (end - start > 1) { ... }
    return x >= valueRange[end] ? end : start;
  }
  \<close>
\<close>

definition getIndexInRange :: "rat list \<Rightarrow> rat \<Rightarrow> int" where
  "getIndexInRange valueRange x =
     (let len = int (length valueRange);
          (start, end') = getIndexInRange_loop valueRange x (0, len - 1)
      in if js_ge x (js_index valueRange end') then end' else start)"

section \<open>getIndex\<close>

text \<open>
  The indices computed by \<open>getIndex\<close> are JavaScript numbers: an integer, or NaN when the
  remainder \<open>%\<close> is taken by a zero \<open>gap\<close>. \<open>js_rem\<close> is \<open>a % b\<close> on integers (the
  remainder of the truncating division, with the sign of \<open>a\<close>), \<open>js_minus\<close> is \<open>a - b\<close>
  with a possibly NaN \<open>b\<close>.
\<close>

datatype jsnum = Num int | NaN

definition js_rem :: "int \<Rightarrow> int \<Rightarrow> jsnum" where
  "js_rem a b = (if b = 0 then NaN else Num (sgn a * (\<bar>a\<bar> mod \<bar>b\<bar>)))"

fun js_minus :: "int \<Rightarrow> jsnum \<Rightarrow> jsnum" where
  "js_minus a (Num b) = Num (a - b)"
| "js_minus a NaN = NaN"

text \<open>\<open>a % b\<close> and \<open>a !== b\<close> on numbers that may be NaN (NaN differs from every number).\<close>

fun js_rem_num :: "jsnum \<Rightarrow> int \<Rightarrow> jsnum" where
  "js_rem_num (Num a) b = js_rem a b"
| "js_rem_num NaN b = NaN"

fun js_strict_neq :: "jsnum \<Rightarrow> jsnum \<Rightarrow> bool" where
  "js_strict_neq (Num a) (Num b) = (a \<noteq> b)"
| "js_strict_neq a b = True"

record BrushStartEndIndex =
  startIndex :: jsnum
  endIndex :: jsnum

text \<open>
  \<^verbatim>\<open>
  function getIndex({ startX, endX, scaleValues, gap, data }): BrushStartEndIndex {
    const lastIndex = data.length - 1;
    const min = Math.min(startX, endX);
    const max = Math.max(startX, endX);
    const minIndex = getIndexInRange(scaleValues, min);
    const maxIndex = getIndexInRange(scaleValues, max);
    return {
      startIndex: minIndex - (minIndex % gap),
      endIndex: maxIndex === lastIndex ? lastIndex : maxIndex - (maxIndex % gap),
    };
  }
  \<close>
  Only the length of \<open>data\<close> is used; its elements are of any type.
\<close>

definition getIndex :: "rat \<Rightarrow> rat \<Rightarrow> rat list \<Rightarrow> int \<Rightarrow> 'd list \<Rightarrow> BrushStartEndIndex" where
  "getIndex startX endX scaleValues gap data =
     (let lastIndex = int (length data) - 1;
          min' = min startX endX;
          max' = max startX endX;
          minIndex = getIndexInRange scaleValues min';
          maxIndex = getIndexInRange scaleValues max'
      in \<lparr>startIndex = js_minus minIndex (js_rem minIndex gap),
          endIndex = (if maxIndex = lastIndex then Num lastIndex
                      else js_minus maxIndex (js_rem maxIndex gap))\<rparr>)"

section \<open>createScale\<close>

text \<open>
  Modelled from the spec: \<open>scalePoint\<close> and \<open>range\<close> are imported from the libraries
  d3-scale (through victory-vendor) and lodash; their code is not part of the sources.
  The spec asks for point-scale semantics: the points of the domain are spread over the
  range at equal spacing, the first at the start of the range and the last at its end.
  \<open>scalePoint_values n r0 r1\<close> is the list of the coordinates of a point scale with
  the default settings (no outer padding, alignment 0.5, no rounding) over a domain of
  \<open>n\<close> values and the range \<open>[r0, r1]\<close>, computed the way d3's band scale computes it
  with inner padding 1: the step is the length of the range divided by
  \<open>max 1 (n - 1)\<close>, the space left over is split by the alignment, and a descending
  range is filled from its end. With a single point the step is the whole range and the
  point is at its middle. Arithmetic is exact.
\<close>

definition scalePoint_values :: "nat \<Rightarrow> rat \<Rightarrow> rat \<Rightarrow> rat list" where
  "scalePoint_values n r0 r1 =
     (let reverse = r1 < r0;
          start = (if reverse then r1 else r0);
          stop = (if reverse then r0 else r1);
          step = (stop - start) / max 1 (of_nat n - 1);
          start' = start + (stop - start - step * (of_nat n - 1)) * (1 / 2);
          values = map (\<lambda>i. start' + step * of_nat i) [0..<n]
      in if reverse then rev values else values)"

text \<open>
  Modelled from the spec: applying the scale to a number. The domain is
  \<open>range(0, len)\<close>, the indices \<open>0 .. len - 1\<close>; an index of the domain is mapped to its
  coordinate and any other number to \<open>undefined\<close>. A NaN index is not in the domain.
\<close>

fun scalePoint_apply :: "rat list \<Rightarrow> jsnum \<Rightarrow> rat option" where
  "scalePoint_apply values (Num i) = js_index values i"
| "scalePoint_apply values NaN = None"

text \<open>
  The result of \<open>createScale\<close>; every field is optional in the source. The scale is kept
  as the function from indices to coordinates.
\<close>

record CreateScaleReturn =
  csr_startX :: "rat option"
  csr_endX :: "rat option"
  csr_scale :: "(jsnum \<Rightarrow> rat option) option"
  csr_scaleValues :: "rat list option"

text \<open>
  \<^verbatim>\<open>
  const createScale = ({ data, startIndex, endIndex, x, width, travellerWidth }): CreateScaleReturn => {
    if (!data || !data.length) {
      return {};
    }
    const len = data.length;
    const scale = scalePoint<number>()
      .domain(range(0, len))
      .range([x, x + width - travellerWidth]);
    const scaleValues = scale.domain().map(entry => scale(entry));
    return { startX: scale(startIndex), endX: scale(endIndex), scale, scaleValues };
  };
  \<close>
  \<open>data\<close> may be missing (\<open>None\<close>). The only test on the arguments is the one on \<open>data\<close>.
  \<open>empty_CreateScaleReturn\<close> is the object \<open>{}\<close>, with no field set. The scale is defined
  on every entry of its domain, which is what \<open>the\<close> reads in \<open>scaleValues\<close>.
\<close>

definition empty_CreateScaleReturn :: CreateScaleReturn where
  "empty_CreateScaleReturn =
     \<lparr>csr_startX = None, csr_endX = None, csr_scale = None, csr_scaleValues = None\<rparr>"

definition createScale ::
  "'d list option \<Rightarrow> jsnum \<Rightarrow> jsnum \<Rightarrow> rat \<Rightarrow> rat \<Rightarrow> rat \<Rightarrow> CreateScaleReturn" where
  "createScale data startIndex' endIndex' x width travellerWidth =
     (case data of
        None \<Rightarrow> empty_CreateScaleReturn
      | Some d \<Rightarrow>
          if length d = 0
          then empty_CreateScaleReturn
          else
            let len = length d;
                values = scalePoint_values len x (x + width - travellerWidth);
                scale = scalePoint_apply values;
                scaleValues = map (\<lambda>entry. the (scale (Num (int entry)))) [0..<len]
            in \<lparr>csr_startX = scale startIndex', csr_endX = scale endIndex',
                csr_scale = Some scale, csr_scaleValues = Some scaleValues\<rparr>)"

text \<open>
  The coordinate of an index under the scale of a result (\<open>coordinateAt\<close> in the spec):
  \<open>undefined\<close> when the result has no scale or the index is not in its domain.
\<close>

definition coordinateAt :: "CreateScaleReturn \<Rightarrow> int \<Rightarrow> rat option" where
  "coordinateAt r i = (case csr_scale r of None \<Rightarrow> None | Some scale \<Rightarrow> scale (Num i))"

section \<open>The brush component: state, properties and handlers\<close>

text \<open>\<^verbatim>\<open>type BrushTravellerId = 'startX' | 'endX';\<close>\<close>

datatype BrushTravellerId = StartX | EndX

text \<open>
  The traveller positions, \<^verbatim>\<open>Record<BrushTravellerId, number>\<close>, with the read
  \<open>travellerPositions[id]\<close> and the update \<open>{ ...prev, [id]: v }\<close>.
\<close>

record TravellerPositions =
  tp_startX :: rat
  tp_endX :: rat

fun tp_get :: "TravellerPositions \<Rightarrow> BrushTravellerId \<Rightarrow> rat" where
  "tp_get tp StartX = tp_startX tp"
| "tp_get tp EndX = tp_endX tp"

fun tp_set :: "TravellerPositions \<Rightarrow> BrushTravellerId \<Rightarrow> rat \<Rightarrow> TravellerPositions" where
  "tp_set tp StartX v = tp\<lparr>tp_startX := v\<rparr>"
| "tp_set tp EndX v = tp\<lparr>tp_endX := v\<rparr>"

text \<open>
  The properties of \<open>RedoBrush\<close> that the handlers read. \<open>onChange\<close> is always passed by
  \<open>BrushInternal\<close>; its calls are collected in the list a handler returns.
\<close>

record 'd BrushWithStateProps =
  p_x :: rat
  p_width :: rat
  p_travellerWidth :: rat
  p_gap :: int
  p_data :: "'d list"
  p_startIndex :: jsnum
  p_endIndex :: jsnum

text \<open>
  The state cells (\<open>useState\<close>) of \<open>RedoBrush\<close> that the drag and keyboard handlers read
  and write. The model covers the states in which the cells a handler reads hold a
  number: the positions have been initialised from the scale
  (\<^verbatim>\<open>if (scale && !travellerPositions) setTravellerPositions(...)\<close>), and the move
  handlers run after \<open>handleTravellerDragStart\<close> has set \<open>movingTravellerId\<close> and
  \<open>brushMoveStartX\<close>, or \<open>handleSlideDragStart\<close> has set \<open>slideMoveStartX\<close>. The keyboard
  handler reads the positions only.
\<close>

record BrushState =
  isTravellerMoving :: bool
  isSlideMoving :: bool
  movingTravellerId :: BrushTravellerId
  brushMoveStartX :: rat
  slideMoveStartX :: rat
  travellerPositions :: TravellerPositions

text \<open>
  The coordinate table the handlers use:
  \<^verbatim>\<open>
  const { scale, scaleValues } =
    data && data.length ? createScale({ data, width, x, travellerWidth, startIndex, endIndex }) : { scale: null };
  \<close>
\<close>

definition RedoBrush_scaleValues :: "'d BrushWithStateProps \<Rightarrow> rat list option" where
  "RedoBrush_scaleValues props =
     (if length (p_data props) \<noteq> 0
      then csr_scaleValues (createScale (Some (p_data props)) (p_startIndex props) (p_endIndex props)
             (p_x props) (p_width props) (p_travellerWidth props))
      else None)"

text \<open>
  \<^verbatim>\<open>
  const handleTravellerMove = useCallback((e) => {
      const prevValue = travellerPositions[movingTravellerId];
      const params = { data, gap, scaleValues };
      let delta = e.pageX - brushMoveStartX;
      if (delta > 0) {
        delta = Math.min(delta, x + width - travellerWidth - prevValue);
      } else if (delta < 0) {
        delta = Math.max(delta, x - prevValue);
      }
      params[movingTravellerId] = prevValue + delta;
      const newIndex = getIndex({ ...params, startX, endX });
      const { startIndex: newStart, endIndex: newEnd } = newIndex;
      const isFullGap = () => { ... };
      setTravellerPositions(prev => ({ ...prev, [movingTravellerId]: prev[movingTravellerId] + delta }));
      setBrushMoveStartX(e.pageX);
      if (onChange) { if (isFullGap()) { onChange(newIndex); } }
    }, [...]);
  \<close>
  \<open>startX\<close> and \<open>endX\<close> are the positions of the current render,
  \<^verbatim>\<open>const { startX, endX } = travellerPositions ?? {}\<close>. The positions in \<open>params\<close> are a
  map from traveller ids to numbers. In the object \<^verbatim>\<open>{ ...params, startX, endX }\<close> the
  properties written after the spread replace those copied from \<open>params\<close>.
  \<open>clamp_delta_traveller\<close> is the \<open>if\<close> on \<open>delta\<close>, \<open>isFullGap\<close> the local function of
  that name:
  \<^verbatim>\<open>
  const isFullGap = () => {
    const lastIndex = data.length - 1;
    if (
      (movingTravellerId === 'startX' && (endX > startX ? newStart % gap === 0 : newEnd % gap === 0)) ||
      (endX < startX && newEnd === lastIndex) ||
      (movingTravellerId === 'endX' && (endX > startX ? newEnd % gap === 0 : newStart % gap === 0)) ||
      (endX > startX && newEnd === lastIndex)
    ) { return true; }
    return false;
  };
  \<close>
\<close>

definition clamp_delta_traveller :: "'d BrushWithStateProps \<Rightarrow> rat \<Rightarrow> rat \<Rightarrow> rat" where
  "clamp_delta_traveller props prevValue delta =
     (if delta > 0 then min delta (p_x props + p_width props - p_travellerWidth props - prevValue)
      else if delta < 0 then max delta (p_x props - prevValue)
      else delta)"

definition isFullGap ::
  "'d BrushWithStateProps \<Rightarrow> BrushTravellerId \<Rightarrow> rat \<Rightarrow> rat \<Rightarrow> BrushStartEndIndex \<Rightarrow> bool" where
  "isFullGap props movingId startX endX newIndex =
     (let newStart = startIndex newIndex;
          newEnd = endIndex newIndex;
          gap = p_gap props;
          lastIndex = int (length (p_data props)) - 1
      in (movingId = StartX \<and>
            (if endX > startX then js_rem_num newStart gap = Num 0 else js_rem_num newEnd gap = Num 0)) \<or>
         (endX < startX \<and> newEnd = Num lastIndex) \<or>
         (movingId = EndX \<and>
            (if endX > startX then js_rem_num newEnd gap = Num 0 else js_rem_num newStart gap = Num 0)) \<or>
         (endX > startX \<and> newEnd = Num lastIndex))"

definition handleTravellerMove ::
  "'d BrushWithStateProps \<Rightarrow> rat list \<Rightarrow> BrushState \<Rightarrow> rat \<Rightarrow> BrushState \<times> BrushStartEndIndex list" where
  "handleTravellerMove props scaleValues st pageX =
     (let startX = tp_startX (travellerPositions st);
          endX = tp_endX (travellerPositions st);
          movingId = movingTravellerId st;
          prevValue = tp_get (travellerPositions st) movingId;
          delta = clamp_delta_traveller props prevValue (pageX - brushMoveStartX st);
          params = Map.empty(movingId \<mapsto> prevValue + delta);
          args = params(StartX \<mapsto> startX, EndX \<mapsto> endX);
          newIndex = getIndex (the (args StartX)) (the (args EndX)) scaleValues (p_gap props) (p_data props);
          st' = st\<lparr>travellerPositions :=
                    tp_set (travellerPositions st) movingId (tp_get (travellerPositions st) movingId + delta),
                  brushMoveStartX := pageX\<rparr>
      in (st', if isFullGap props movingId startX endX newIndex then [newIndex] else []))"

text \<open>
  \<^verbatim>\<open>
  const handleSlideDrag = useCallback((e) => {
      let delta = e.pageX - slideMoveStartX;
      if (delta > 0) {
        delta = Math.min(delta, x + width - travellerWidth - endX, x + width - travellerWidth - startX);
      } else if (delta < 0) {
        delta = Math.max(delta, x - startX, x - endX);
      }
      const newIndex = getIndex({ startX: startX + delta, endX: endX + delta, data, gap, scaleValues });
      if ((newIndex.startIndex !== startIndex || newIndex.endIndex !== endIndex) && onChange) {
        onChange(newIndex);
      }
      setTravellerPositions(prev => ({ startX: prev.startX + delta, endX: prev.endX + delta }));
      setSlideMoveStartX(e.pageX);
    }, [...]);
  \<close>
\<close>

definition clamp_delta_slide :: "'d BrushWithStateProps \<Rightarrow> rat \<Rightarrow> rat \<Rightarrow> rat \<Rightarrow> rat" where
  "clamp_delta_slide props startX endX delta =
     (if delta > 0
      then min (min delta (p_x props + p_width props - p_travellerWidth props - endX))
               (p_x props + p_width props - p_travellerWidth props - startX)
      else if delta < 0 then max (max delta (p_x props - startX)) (p_x props - endX)
      else delta)"

definition handleSlideDrag ::
  "'d BrushWithStateProps \<Rightarrow> rat list \<Rightarrow> BrushState \<Rightarrow> rat \<Rightarrow> BrushState \<times> BrushStartEndIndex list" where
  "handleSlideDrag props scaleValues st pageX =
     (let startX = tp_startX (travellerPositions st);
          endX = tp_endX (travellerPositions st);
          delta = clamp_delta_slide props startX endX (pageX - slideMoveStartX st);
          newIndex = getIndex (startX + delta) (endX + delta) scaleValues (p_gap props) (p_data props);
          st' = st\<lparr>travellerPositions :=
                    \<lparr>tp_startX = tp_startX (travellerPositions st) + delta,
                     tp_endX = tp_endX (travellerPositions st) + delta\<rparr>,
                  slideMoveStartX := pageX\<rparr>
      in (st', if js_strict_neq (startIndex newIndex) (p_startIndex props)
                  \<or> js_strict_neq (endIndex newIndex) (p_endIndex props)
               then [newIndex] else []))"

text \<open>
  \<^verbatim>\<open>
  const handleDrag = useCallback((e) => {
      if (leaveTimerRef.current) { clearTimeout(leaveTimerRef.current); leaveTimerRef.current = null; }
      if (isTravellerMoving) { handleTravellerMove(e); } else if (isSlideMoving) { handleSlideDrag(e); }
    }, [...]);
  \<close>
  The leave timer is not part of the model.
\<close>

definition handleDrag ::
  "'d BrushWithStateProps \<Rightarrow> rat list \<Rightarrow> BrushState \<Rightarrow> rat \<Rightarrow> BrushState \<times> BrushStartEndIndex list" where
  "handleDrag props scaleValues st pageX =
     (if isTravellerMoving st then handleTravellerMove props scaleValues st pageX
      else if isSlideMoving st then handleSlideDrag props scaleValues st pageX
      else (st, []))"

text \<open>
  \<open>scaleValues.indexOf(v)\<close>: the first index holding \<open>v\<close>, or \<open>-1\<close>.
\<close>

fun indexOf_from :: "rat list \<Rightarrow> rat \<Rightarrow> int \<Rightarrow> int" where
  "indexOf_from [] v i = - 1"
| "indexOf_from (y # ys) v i = (if y = v then i else indexOf_from ys v (i + 1))"

definition indexOf :: "rat list \<Rightarrow> rat \<Rightarrow> int" where
  "indexOf xs v = indexOf_from xs v 0"

text \<open>
  The key handler of a traveller passes the direction to \<open>handleTravellerMoveKeyboard\<close>:
  \<^verbatim>\<open>
  if (!['ArrowLeft', 'ArrowRight'].includes(e.key)) { return; }
  onTravellerMoveKeyboard(e.key === 'ArrowRight' ? 1 : -1, id);
  \<close>
  so the direction, of type \<^verbatim>\<open>1 | -1\<close>, is given by the arrow key.
\<close>

datatype ArrowKey = ArrowLeft | ArrowRight

fun direction_of :: "ArrowKey \<Rightarrow> int" where
  "direction_of ArrowRight = 1"
| "direction_of ArrowLeft = - 1"

text \<open>
  \<^verbatim>\<open>
  const handleTravellerMoveKeyboard = (direction: 1 | -1, id: BrushTravellerId) => {
    const currentScaleValue = travellerPositions[id];
    const currentIndex = scaleValues.indexOf(currentScaleValue);
    if (currentIndex === -1) { return; }
    const newIndex = currentIndex + direction;
    if (newIndex === -1 || newIndex >= scaleValues.length) { return; }
    const newScaleValue = scaleValues[newIndex];
    // Prevent travellers from being on top of each other or overlapping
    if ((id === 'startX' && newScaleValue >= endX) || (id === 'endX' && newScaleValue <= startX)) { return; }
    setTravellerPositions(prev => ({ ...prev, [id]: newScaleValue }));
    onChange(getIndex({ startX, endX, data, gap, scaleValues }));
  };
  \<close>
  After the two early returns \<open>newIndex\<close> is an index of the table, so the read
  \<open>scaleValues[newIndex]\<close> is in range. \<open>startX\<close> and \<open>endX\<close> in the call of \<open>getIndex\<close>
  are the positions of the current render, read before \<open>setTravellerPositions\<close> takes effect.
\<close>

definition handleTravellerMoveKeyboard ::
  "'d BrushWithStateProps \<Rightarrow> rat list \<Rightarrow> BrushState \<Rightarrow> ArrowKey \<Rightarrow> BrushTravellerId
     \<Rightarrow> BrushState \<times> BrushStartEndIndex list" where
  "handleTravellerMoveKeyboard props scaleValues st key id' =
     (let startX = tp_startX (travellerPositions st);
          endX = tp_endX (travellerPositions st);
          currentScaleValue = tp_get (travellerPositions st) id';
          currentIndex = indexOf scaleValues currentScaleValue
      in if currentIndex = - 1 then (st, [])
         else
           let newIndex = currentIndex + direction_of key
           in if newIndex = - 1 \<or> newIndex \<ge> int (length scaleValues) then (st, [])
              else
                let newScaleValue = scaleValues ! nat newIndex
                in if (id' = StartX \<and> newScaleValue \<ge> endX) \<or> (id' = EndX \<and> newScaleValue \<le> startX)
                   then (st, [])
                   else (st\<lparr>travellerPositions := tp_set (travellerPositions st) id' newScaleValue\<rparr>,
                         [getIndex startX endX scaleValues (p_gap props) (p_data props)]))"

text \<open>
  The \<open>onChange\<close> that \<open>BrushInternal\<close> passes to \<open>RedoBrush\<close> forwards a window to the
  listeners and to the store only when it differs from the current one:
  \<^verbatim>\<open>
  const onChange = useCallback((nextState: BrushStartEndIndex) => {
      if (nextState.startIndex !== startIndex || nextState.endIndex !== endIndex) {
        onChangeFromContext?.(nextState);
        onChangeFromProps?.(nextState);
        dispatch(setDataStartEndIndexes(nextState));
      }
    }, [...]);
  \<close>
  \<open>BrushInternal_onChange\<close> is the list of windows forwarded (none or one).
\<close>

definition BrushInternal_onChange :: "jsnum \<Rightarrow> jsnum \<Rightarrow> BrushStartEndIndex \<Rightarrow> BrushStartEndIndex list" where
  "BrushInternal_onChange startIndex' endIndex' nextState =
     (if js_strict_neq (startIndex nextState) startIndex' \<or> js_strict_neq (endIndex nextState) endIndex'
      then [nextState] else [])"

text \<open>
  The part of the track in which a traveller can be: the pixel interval from \<open>x\<close> to
  \<open>x + width - travellerWidth\<close>.
\<close>

definition in_track :: "'d BrushWithStateProps \<Rightarrow> rat \<Rightarrow> bool" where
  "in_track props v = (p_x props \<le> v \<and> v \<le> p_x props + p_width props - p_travellerWidth props)"

text \<open>
  The positions are set once, in the first render that has a scale:
  \<^verbatim>\<open>
  if (scale && !travellerPositions) {
    setTravellerPositions({ startX: scale(startIndex), endX: scale(endIndex) });
  }
  \<close>
  with the scale of \<^verbatim>\<open>data && data.length ? createScale({ ... }) : { scale: null }\<close>. The
  result is \<open>None\<close> when there is no scale, and also when an index is outside the domain
  of the scale, which leaves a position \<open>undefined\<close>.
\<close>

definition initial_travellerPositions :: "'d BrushWithStateProps \<Rightarrow> TravellerPositions option" where
  "initial_travellerPositions props =
     (if length (p_data props) \<noteq> 0
      then (case csr_scale (createScale (Some (p_data props)) (p_startIndex props) (p_endIndex props)
                    (p_x props) (p_width props) (p_travellerWidth props)) of
              None \<Rightarrow> None
            | Some scale \<Rightarrow>
                (case (scale (p_startIndex props), scale (p_endIndex props)) of
                   (Some a, Some b) \<Rightarrow> Some \<lparr>tp_startX = a, tp_endX = b\<rparr>
                 | _ \<Rightarrow> None))
      else None)"

text \<open>
  The handlers that start and end a drag; \<open>pageX\<close> is that of the mouse event or of the
  first changed touch.
  \<^verbatim>\<open>
  const handleTravellerDragStart = (id: BrushTravellerId, e: MouseOrTouchEvent) => {
    const event = isTouch(e) ? e.changedTouches[0] : e;
    setIsSlideMoving(false);
    setIsTravellerMoving(true);
    setMovingTravellerId(id);
    setBrushMoveStartX(event.pageX);
  };
  const handleSlideDragStart = (e: MouseOrTouchEvent) => {
    const event = isTouch(e) ? e.changedTouches[0] : e;
    setIsTravellerMoving(false);
    setIsSlideMoving(true);
    setSlideMoveStartX(event.pageX);
  };
  const handleDragEnd = useCallback(() => {
    setIsTravellerMoving(false);
    setIsSlideMoving(false);
    const { onDragEnd } = props;
    onDragEnd?.({ endIndex, startIndex });
    window.removeEventListener(...);
  }, [...]);
  \<close>
  \<open>onDragEnd\<close> and the event listeners are not part of the model.
\<close>

definition handleTravellerDragStart :: "BrushState \<Rightarrow> BrushTravellerId \<Rightarrow> rat \<Rightarrow> BrushState" where
  "handleTravellerDragStart st id' pageX =
     st\<lparr>isSlideMoving := False, isTravellerMoving := True, movingTravellerId := id',
        brushMoveStartX := pageX\<rparr>"

definition handleSlideDragStart :: "BrushState \<Rightarrow> rat \<Rightarrow> BrushState" where
  "handleSlideDragStart st pageX =
     st\<lparr>isTravellerMoving := False, isSlideMoving := True, slideMoveStartX := pageX\<rparr>"

definition handleDragEnd :: "BrushState \<Rightarrow> BrushState" where
  "handleDragEnd st = st\<lparr>isTravellerMoving := False, isSlideMoving := False\<rparr>"

text \<open>
  The events of the component that change its state: the start of a traveller drag or of
  a slide drag, a move (mouse move or touch move, handled by \<open>handleDrag\<close>), the end of a
  drag (mouse up, touch end or the leave timer), and an arrow key on a traveller.
  \<open>handle_event\<close> gives the state after an event, \<open>run_events\<close> the state after a
  sequence of events, each handled by the handler of the render that follows the
  previous event, so in the state the previous one left.
\<close>

datatype BrushEvent =
    TravellerDragStart BrushTravellerId rat
  | SlideDragStart rat
  | Drag rat
  | DragEnd
  | KeyDown ArrowKey BrushTravellerId

fun handle_event :: "'d BrushWithStateProps \<Rightarrow> rat list \<Rightarrow> BrushState \<Rightarrow> BrushEvent \<Rightarrow> BrushState" where
  "handle_event props scaleValues st (TravellerDragStart id' pageX) = handleTravellerDragStart st id' pageX"
| "handle_event props scaleValues st (SlideDragStart pageX) = handleSlideDragStart st pageX"
| "handle_event props scaleValues st (Drag pageX) = fst (handleDrag props scaleValues st pageX)"
| "handle_event props scaleValues st DragEnd = handleDragEnd st"
| "handle_event props scaleValues st (KeyDown key id') =
     fst (handleTravellerMoveKeyboard props scaleValues st key id')"

fun run_events :: "'d BrushWithStateProps \<Rightarrow> rat list \<Rightarrow> BrushState \<Rightarrow> BrushEvent list \<Rightarrow> BrushState" where
  "run_events props scaleValues st [] = st"
| "run_events props scaleValues st (ev # evs) =
     run_events props scaleValues (handle_event props scaleValues st ev) evs"

text \<open>
  Pixel values on which the arithmetic of the handlers is the same in IEEE doubles as in
  the rationals of the model: integers of size at most \<open>2 ^ 50\<close>. The handlers add and
  subtract at most four such values or positions between the ends of the track, so every
  intermediate result is an integer below \<open>2 ^ 53\<close>, which a double holds exactly.
  \<open>exact_event\<close> asks this of the \<open>pageX\<close> of an event.
\<close>

definition exact_pixel :: "rat \<Rightarrow> bool" where
  "exact_pixel v = (v \<in> \<int> \<and> \<bar>v\<bar> \<le> 2 ^ 50)"

fun exact_event :: "BrushEvent \<Rightarrow> bool" where
  "exact_event (TravellerDragStart id' pageX) = exact_pixel pageX"
| "exact_event (SlideDragStart pageX) = exact_pixel pageX"
| "exact_event (Drag pageX) = exact_pixel pageX"
| "exact_event DragEnd = True"
| "exact_event (KeyDown key id') = True"

text \<open>
  The invariant of the state used below: both travellers are inside the track at integer
  positions, and the start coordinate of the drag in progress is an integer.
\<close>

definition brush_invariant :: "'d BrushWithStateProps \<Rightarrow> BrushState \<Rightarrow> bool" where
  "brush_invariant props st =
     (in_track props (tp_startX (travellerPositions st)) \<and>
      in_track props (tp_endX (travellerPositions st)) \<and>
      tp_startX (travellerPositions st) \<in> \<int> \<and> tp_endX (travellerPositions st) \<in> \<int> \<and>
      (isTravellerMoving st \<longrightarrow> brushMoveStartX st \<in> \<int>) \<and>
      (isSlideMoving st \<and> \<not> isTravellerMoving st \<longrightarrow> slideMoveStartX st \<in> \<int>))"

section \<open>Properties of the search loop\<close>

lemma getIndexInRange_step_narrows:
  assumes "1 < end' - start" and "getIndexInRange_step valueRange x (start, end') = (s, e)"
  shows "start \<le> s \<and> s < e \<and> e \<le> end' \<and> e - s < end' - start"
  using assms by (auto simp: getIndexInRange_step_def Let_def split: if_splits)

lemma getIndexInRange_loop_exit:
  "\<not> 1 < end' - start \<Longrightarrow> getIndexInRange_loop valueRange x (start, end') = (start, end')"
  by (simp add: getIndexInRange_loop.simps [of valueRange x "(start, end')"])

lemma getIndexInRange_loop_iter:
  "1 < end' - start \<Longrightarrow> getIndexInRange_loop valueRange x (start, end') =
     getIndexInRange_loop valueRange x (getIndexInRange_step valueRange x (start, end'))"
  by (simp add: getIndexInRange_loop.simps [of valueRange x "(start, end')"])

text \<open>The final bounds lie inside the initial ones and are at most one apart.\<close>

lemma getIndexInRange_loop_bounds:
  "start \<le> end' \<Longrightarrow> getIndexInRange_loop valueRange x (start, end') = (s, e) \<Longrightarrow>
     start \<le> s \<and> s \<le> e \<and> e \<le> end' \<and> e - s \<le> 1 \<and> (start < end' \<longrightarrow> e = s + 1)"
proof (induction valueRange x "(start, end')" arbitrary: start end' rule: getIndexInRange_loop.induct)
  case (1 valueRange x)
  show ?case
  proof (cases "1 < end' - start")
    case True
    obtain s1 e1 where st: "getIndexInRange_step valueRange x (start, end') = (s1, e1)"
      by (cases "getIndexInRange_step valueRange x (start, end')")
    from getIndexInRange_step_narrows [OF True st]
    have n: "start \<le> s1" "s1 < e1" "e1 \<le> end'" by simp_all
    from "1.prems"(2) True st have "getIndexInRange_loop valueRange x (s1, e1) = (s, e)"
      by (simp add: getIndexInRange_loop_iter)
    with "1.hyps" [of s1 e1] True st n
    have "s1 \<le> s \<and> s \<le> e \<and> e \<le> e1 \<and> e - s \<le> 1 \<and> (s1 < e1 \<longrightarrow> e = s + 1)"
      by simp
    with n show ?thesis by auto
  next
    case False
    with "1.prems" show ?thesis
      by (auto simp: getIndexInRange_loop_exit)
  qed
qed

text \<open>
  The loop is the iteration of its body: it leaves after some number \<open>n\<close> of iterations,
  at most the initial distance of the bounds.
\<close>

lemma getIndexInRange_loop_iterates:
  "\<exists>n. n \<le> nat (snd b - fst b) \<and>
       \<not> 1 < snd ((getIndexInRange_step valueRange x ^^ n) b) - fst ((getIndexInRange_step valueRange x ^^ n) b) \<and>
       (\<forall>k<n. 1 < snd ((getIndexInRange_step valueRange x ^^ k) b) - fst ((getIndexInRange_step valueRange x ^^ k) b)) \<and>
       getIndexInRange_loop valueRange x b = (getIndexInRange_step valueRange x ^^ n) b"
proof (induction valueRange x b rule: getIndexInRange_loop.induct)
  case (1 valueRange x b)
  let ?f = "getIndexInRange_step valueRange x"
  show ?case
  proof (cases "1 < snd b - fst b")
    case False
    then have "getIndexInRange_loop valueRange x b = b"
      by (simp add: getIndexInRange_loop.simps [of valueRange x b])
    with False show ?thesis
      by (intro exI [of _ 0]) simp
  next
    case True
    from "1.IH" [OF True] obtain n where
      n: "n \<le> nat (snd (?f b) - fst (?f b))"
        "\<not> 1 < snd ((?f ^^ n) (?f b)) - fst ((?f ^^ n) (?f b))"
        "\<forall>k<n. 1 < snd ((?f ^^ k) (?f b)) - fst ((?f ^^ k) (?f b))"
        "getIndexInRange_loop valueRange x (?f b) = (?f ^^ n) (?f b)"
      by blast
    obtain s e where se: "?f (fst b, snd b) = (s, e)"
      by (cases "?f (fst b, snd b)")
    from getIndexInRange_step_narrows [OF True se] se
    have less: "snd (?f b) - fst (?f b) < snd b - fst b" by simp
    have a: "Suc n \<le> nat (snd b - fst b)"
      using n(1) less True by arith
    have b: "\<not> 1 < snd ((?f ^^ Suc n) b) - fst ((?f ^^ Suc n) b)"
      using n(2) by (simp add: funpow_swap1)
    have c: "\<forall>k<Suc n. 1 < snd ((?f ^^ k) b) - fst ((?f ^^ k) b)"
    proof (intro allI impI)
      fix k assume "k < Suc n"
      show "1 < snd ((?f ^^ k) b) - fst ((?f ^^ k) b)"
      proof (cases k)
        case 0
        with True show ?thesis by simp
      next
        case (Suc j)
        with \<open>k < Suc n\<close> have "j < n" by simp
        with n(3) have "1 < snd ((?f ^^ j) (?f b)) - fst ((?f ^^ j) (?f b))" by blast
        then show ?thesis unfolding Suc by (simp add: funpow_swap1)
      qed
    qed
    have d: "getIndexInRange_loop valueRange x b = (?f ^^ Suc n) b"
      using True n(4) by (simp add: funpow_swap1 getIndexInRange_loop.simps [of valueRange x b])
    from a b c d show ?thesis by blast
  qed
qed

lemma js_gt_mono: "x1 \<le> x2 \<Longrightarrow> js_gt a x2 \<Longrightarrow> js_gt a x1"
  by (cases a) auto

lemma js_ge_mono: "x1 \<le> x2 \<Longrightarrow> js_ge x1 a \<Longrightarrow> js_ge x2 a"
  by (cases a) auto

text \<open>
  Two searches on the same table take the same branches until the first middle element
  \<open>m\<close> with \<open>x1 < valueRange[m] \<le> x2\<close>; from there the search for \<open>x1\<close> stays at or
  below \<open>m\<close> and the one for \<open>x2\<close> at or above it. The table need not be sorted.
\<close>

lemma getIndexInRange_loop_mono:
  assumes "x1 \<le> x2" and "start \<le> end'"
    and "getIndexInRange_loop valueRange x1 (start, end') = (s1, e1)"
    and "getIndexInRange_loop valueRange x2 (start, end') = (s2, e2)"
  shows "(if js_ge x1 (js_index valueRange e1) then e1 else s1)
       \<le> (if js_ge x2 (js_index valueRange e2) then e2 else s2)"
  using assms
proof (induction valueRange x1 "(start, end')" arbitrary: start end' rule: getIndexInRange_loop.induct)
  case (1 valueRange x1)
  show ?case
  proof (cases "1 < end' - start")
    case False
    with "1.prems" have "s1 = start" "e1 = end'" "s2 = start" "e2 = end'"
      by (simp_all add: getIndexInRange_loop_exit)
    with "1.prems"(1,2) show ?thesis
      by (auto dest: js_ge_mono)
  next
    case True
    let ?m = "(start + end') div 2"
    have m: "start < ?m" "?m < end'" using True by auto
    show ?thesis
    proof (cases "js_gt (js_index valueRange ?m) x2")
      case gt2: True
      with "1.prems"(1) have gt1: "js_gt (js_index valueRange ?m) x1"
        by (rule js_gt_mono)
      have st1: "getIndexInRange_step valueRange x1 (start, end') = (start, ?m)"
        and st2: "getIndexInRange_step valueRange x2 (start, end') = (start, ?m)"
        using gt1 gt2 by (simp_all add: getIndexInRange_step_def)
      from "1.prems"(3) True st1 have l1: "getIndexInRange_loop valueRange x1 (start, ?m) = (s1, e1)"
        by (simp add: getIndexInRange_loop_iter)
      from "1.prems"(4) True st2 have l2: "getIndexInRange_loop valueRange x2 (start, ?m) = (s2, e2)"
        by (simp add: getIndexInRange_loop_iter)
      from "1.hyps" [of start ?m] True st1 "1.prems"(1) m l1 l2 show ?thesis
        by simp
    next
      case ngt2: False
      then have st2: "getIndexInRange_step valueRange x2 (start, end') = (?m, end')"
        by (simp add: getIndexInRange_step_def)
      from "1.prems"(4) True st2 have l2: "getIndexInRange_loop valueRange x2 (?m, end') = (s2, e2)"
        by (simp add: getIndexInRange_loop_iter)
      show ?thesis
      proof (cases "js_gt (js_index valueRange ?m) x1")
        case False
        then have st1: "getIndexInRange_step valueRange x1 (start, end') = (?m, end')"
          by (simp add: getIndexInRange_step_def)
        from "1.prems"(3) True st1 have l1: "getIndexInRange_loop valueRange x1 (?m, end') = (s1, e1)"
          by (simp add: getIndexInRange_loop_iter)
        from "1.hyps" [of ?m end'] True st1 "1.prems"(1) m l1 l2 show ?thesis
          by simp
      next
        case True
        then have st1: "getIndexInRange_step valueRange x1 (start, end') = (start, ?m)"
          by (simp add: getIndexInRange_step_def)
        from "1.prems"(3) \<open>1 < end' - start\<close> st1
        have l1: "getIndexInRange_loop valueRange x1 (start, ?m) = (s1, e1)"
          by (simp add: getIndexInRange_loop_iter)
        from getIndexInRange_loop_bounds [OF _ l1] m have "s1 \<le> e1" "e1 \<le> ?m" by simp_all
        moreover from getIndexInRange_loop_bounds [OF _ l2] m have "?m \<le> s2" "s2 \<le> e2" by simp_all
        ultimately show ?thesis by auto
      qed
    qed
  qed
qed

lemma getIndexInRange_mono_le:
  assumes le: "x1 \<le> x2"
  shows "getIndexInRange valueRange x1 \<le> getIndexInRange valueRange x2"
proof (cases "valueRange = []")
  case True
  then show ?thesis
    by (simp add: getIndexInRange_def getIndexInRange_loop_exit js_index_def)
next
  case False
  then have ne: "(0::int) \<le> int (length valueRange) - 1"
    by (cases valueRange) simp_all
  obtain s1 e1 where l1: "getIndexInRange_loop valueRange x1 (0, int (length valueRange) - 1) = (s1, e1)"
    by (cases "getIndexInRange_loop valueRange x1 (0, int (length valueRange) - 1)")
  obtain s2 e2 where l2: "getIndexInRange_loop valueRange x2 (0, int (length valueRange) - 1) = (s2, e2)"
    by (cases "getIndexInRange_loop valueRange x2 (0, int (length valueRange) - 1)")
  from getIndexInRange_loop_mono [OF le ne l1 l2] l1 l2 show ?thesis
    by (simp add: getIndexInRange_def)
qed

text \<open>The result is an index of the table; for the empty table it is 0.\<close>

lemma getIndexInRange_range:
  "0 \<le> getIndexInRange valueRange x \<and>
   (valueRange \<noteq> [] \<longrightarrow> getIndexInRange valueRange x \<le> int (length valueRange) - 1)"
proof (cases "valueRange = []")
  case True
  then show ?thesis
    by (simp add: getIndexInRange_def getIndexInRange_loop_exit js_index_def)
next
  case False
  then have ne: "(0::int) \<le> int (length valueRange) - 1"
    by (cases valueRange) simp_all
  obtain s e where l: "getIndexInRange_loop valueRange x (0, int (length valueRange) - 1) = (s, e)"
    by (cases "getIndexInRange_loop valueRange x (0, int (length valueRange) - 1)")
  from getIndexInRange_loop_bounds [OF ne l] l show ?thesis
    by (auto simp: getIndexInRange_def)
qed

text \<open>
  The invariant of the search: a lower bound other than the initial one holds a
  coordinate that is at most \<open>x\<close>, an upper bound other than the initial one holds a
  coordinate above \<open>x\<close>.
\<close>

lemma getIndexInRange_loop_brackets:
  assumes "0 \<le> start" and "start \<le> end'" and "end' < int (length valueRange)"
    and "start = lo \<or> valueRange ! nat start \<le> x"
    and "end' = hi \<or> x < valueRange ! nat end'"
    and "getIndexInRange_loop valueRange x (start, end') = (s, e)"
  shows "(s = lo \<or> valueRange ! nat s \<le> x) \<and> (e = hi \<or> x < valueRange ! nat e)"
  using assms
proof (induction valueRange x "(start, end')" arbitrary: start end' rule: getIndexInRange_loop.induct)
  case (1 valueRange x)
  show ?case
  proof (cases "1 < end' - start")
    case False
    with "1.prems" show ?thesis
      by (simp add: getIndexInRange_loop_exit)
  next
    case True
    let ?m = "(start + end') div 2"
    have m: "start < ?m" "?m < end'" using True by auto
    have rd: "js_index valueRange ?m = Some (valueRange ! nat ?m)"
      using m "1.prems"(1,3) by (simp add: js_index_def)
    show ?thesis
    proof (cases "valueRange ! nat ?m > x")
      case gt: True
      then have st: "getIndexInRange_step valueRange x (start, end') = (start, ?m)"
        by (simp add: getIndexInRange_step_def rd)
      from "1.prems"(6) True st have l: "getIndexInRange_loop valueRange x (start, ?m) = (s, e)"
        by (simp add: getIndexInRange_loop_iter)
      from "1.hyps" [of start ?m] True st "1.prems"(1,3,4) m gt l show ?thesis
        by simp
    next
      case ngt: False
      then have st: "getIndexInRange_step valueRange x (start, end') = (?m, end')"
        by (simp add: getIndexInRange_step_def rd)
      from "1.prems"(6) True st have l: "getIndexInRange_loop valueRange x (?m, end') = (s, e)"
        by (simp add: getIndexInRange_loop_iter)
      from "1.hyps" [of ?m end'] True st "1.prems"(1,3,5) m ngt l show ?thesis
        by simp
    qed
  qed
qed

lemma getIndexInRange_neighbours:
  assumes "valueRange \<noteq> []"
  shows "(getIndexInRange valueRange x = 0 \<or> valueRange ! nat (getIndexInRange valueRange x) \<le> x) \<and>
         (getIndexInRange valueRange x = int (length valueRange) - 1
            \<or> x < valueRange ! nat (getIndexInRange valueRange x + 1))"
proof -
  let ?n = "int (length valueRange)"
  from assms have ne: "(0::int) \<le> ?n - 1"
    by (cases valueRange) simp_all
  obtain s e where l: "getIndexInRange_loop valueRange x (0, ?n - 1) = (s, e)"
    by (cases "getIndexInRange_loop valueRange x (0, ?n - 1)")
  from getIndexInRange_loop_bounds [OF ne l]
  have b: "0 \<le> s" "s \<le> e" "e \<le> s + 1" "e < ?n" "0 < ?n - 1 \<longrightarrow> e = s + 1" by auto
  have r: "getIndexInRange valueRange x = (if x \<ge> valueRange ! nat e then e else s)"
    using l b by (simp add: getIndexInRange_def js_index_def)
  have inv: "(s = 0 \<or> valueRange ! nat s \<le> x) \<and> (e = ?n - 1 \<or> x < valueRange ! nat e)"
    by (rule getIndexInRange_loop_brackets [OF _ ne _ _ _ l]) simp_all
  show ?thesis
  proof (cases "x \<ge> valueRange ! nat e")
    case True
    with inv have "e = ?n - 1" by auto
    with True r b show ?thesis by auto
  next
    case False
    show ?thesis
    proof (cases "e = s")
      case True
      with b have "?n - 1 = 0" by auto
      with False r b True show ?thesis by auto
    next
      case ne: False
      with b have "e = s + 1" by auto
      with False r inv show ?thesis by auto
    qed
  qed
qed

lemma getIndexInRange_sorted:
  assumes "sorted valueRange" and "k < length valueRange"
  shows "int k \<le> getIndexInRange valueRange x \<longleftrightarrow> k = 0 \<or> valueRange ! k \<le> x"
proof -
  let ?r = "getIndexInRange valueRange x"
  from assms(2) have ne: "valueRange \<noteq> []" by auto
  from getIndexInRange_range [of valueRange x] ne
  have rr: "0 \<le> ?r" "?r \<le> int (length valueRange) - 1" by simp_all
  note nb = getIndexInRange_neighbours [OF ne, of x]
  show ?thesis
  proof
    assume le: "int k \<le> ?r"
    show "k = 0 \<or> valueRange ! k \<le> x"
    proof (cases "k = 0")
      case False
      with le have "?r \<noteq> 0" by auto
      with nb have "valueRange ! nat ?r \<le> x" by auto
      moreover have "valueRange ! k \<le> valueRange ! nat ?r"
        using assms(1) le rr by (intro sorted_nth_mono) auto
      ultimately show ?thesis by simp
    qed simp
  next
    assume h: "k = 0 \<or> valueRange ! k \<le> x"
    show "int k \<le> ?r"
    proof (rule ccontr)
      assume "\<not> int k \<le> ?r"
      then have gt: "?r < int k" by simp
      with assms(2) have "?r \<noteq> int (length valueRange) - 1" by auto
      with nb have "x < valueRange ! nat (?r + 1)" by auto
      moreover have "valueRange ! nat (?r + 1) \<le> valueRange ! k"
        using assms gt rr by (intro sorted_nth_mono) auto
      moreover from gt rr have "k \<noteq> 0" by auto
      ultimately show False using h by auto
    qed
  qed
qed

section \<open>Properties of getIndex\<close>

lemma js_rem_nonneg: "0 \<le> a \<Longrightarrow> 1 \<le> b \<Longrightarrow> js_rem a b = Num (a mod b)"
  by (simp add: js_rem_def sgn_if)

lemma snap_eq: "0 \<le> a \<Longrightarrow> 1 \<le> gap \<Longrightarrow> js_minus a (js_rem a gap) = Num (a - a mod gap)"
  by (simp add: js_rem_nonneg)

lemma snap_mono: "(1::int) \<le> gap \<Longrightarrow> a \<le> b \<Longrightarrow> a - a mod gap \<le> b - b mod gap"
proof -
  assume g: "1 \<le> gap" and ab: "a \<le> b"
  have "a - a mod gap = gap * (a div gap)" "b - b mod gap = gap * (b div gap)"
    by (simp_all add: minus_mod_eq_mult_div)
  moreover have "a div gap \<le> b div gap" using ab g by (simp add: zdiv_mono1)
  ultimately show ?thesis using g by (simp add: mult_left_mono)
qed

lemma getIndex_eq:
  assumes "1 \<le> gap"
  shows "getIndex startX endX scaleValues gap data =
     \<lparr>startIndex = Num (getIndexInRange scaleValues (min startX endX)
                         - getIndexInRange scaleValues (min startX endX) mod gap),
      endIndex = Num (if getIndexInRange scaleValues (max startX endX) = int (length data) - 1
                      then getIndexInRange scaleValues (max startX endX)
                      else getIndexInRange scaleValues (max startX endX)
                         - getIndexInRange scaleValues (max startX endX) mod gap)\<rparr>"
  using assms getIndexInRange_range [of scaleValues "min startX endX"]
    getIndexInRange_range [of scaleValues "max startX endX"]
  by (simp add: getIndex_def Let_def snap_eq)

section \<open>Properties of the point scale and of createScale\<close>

lemma scalePoint_values_length: "length (scalePoint_values n r0 r1) = n"
  by (simp add: scalePoint_values_def Let_def)

lemma scalePoint_values_eq:
  assumes "2 \<le> n"
  shows "scalePoint_values n r0 r1 =
     (if r1 < r0 then rev (map (\<lambda>i. r1 + (r0 - r1) / (of_nat n - 1) * of_nat i) [0..<n])
      else map (\<lambda>i. r0 + (r1 - r0) / (of_nat n - 1) * of_nat i) [0..<n])"
proof -
  have n1: "(of_nat n :: rat) - 1 \<noteq> 0" "max 1 (of_nat n - 1 :: rat) = of_nat n - 1"
    using assms by (auto simp: max_def)
  have c: "(a / (of_nat n - 1)) * (of_nat n - 1) = a" for a :: rat
    using n1(1) by simp
  show ?thesis
    using assms by (simp add: scalePoint_values_def Let_def n1(2) c)
qed

lemma scalePoint_values_nth:
  assumes "2 \<le> n" and "i < n"
  shows "scalePoint_values n r0 r1 ! i = r0 + of_nat i * ((r1 - r0) / (of_nat n - 1))"
proof (cases "r1 < r0")
  case False
  then show ?thesis
    using assms(2) by (simp add: scalePoint_values_eq [OF assms(1)])
next
  case True
  have n1: "(of_nat n :: rat) - 1 \<noteq> 0"
    using assms(1) by auto
  have e: "(of_nat (n - Suc i) :: rat) = (of_nat n - 1) - of_nat i"
    using assms(2) by (simp add: of_nat_diff)
  have "scalePoint_values n r0 r1 ! i = r1 + (r0 - r1) / (of_nat n - 1) * ((of_nat n - 1) - of_nat i)"
    using True assms(2) by (simp add: scalePoint_values_eq [OF assms(1)] rev_nth e)
  also have "\<dots> = r1 + ((r0 - r1) / (of_nat n - 1) * (of_nat n - 1)) - (r0 - r1) / (of_nat n - 1) * of_nat i"
    by (simp only: right_diff_distrib)
  also have "(r0 - r1) / (of_nat n - 1) * (of_nat n - 1) = r0 - r1"
    using n1 by simp
  also have "r1 + (r0 - r1) - (r0 - r1) / (of_nat n - 1) * of_nat i
      = r0 + of_nat i * ((r1 - r0) / (of_nat n - 1))"
  proof -
    have "(r0 - r1) / (of_nat n - 1) = - ((r1 - r0) / (of_nat n - 1))"
      by (simp add: minus_divide_left)
    then show ?thesis by simp
  qed
  finally show ?thesis .
qed

lemma scalePoint_values_single: "scalePoint_values (Suc 0) r0 r1 = [(r0 + r1) / 2]"
  by (simp add: scalePoint_values_def Let_def field_simps)

lemma createScale_scaleValues:
  assumes "d \<noteq> []"
  shows "csr_scaleValues (createScale (Some d) si ei x width travellerWidth)
           = Some (scalePoint_values (length d) x (x + width - travellerWidth))"
proof -
  let ?vs = "scalePoint_values (length d) x (x + width - travellerWidth)"
  have "map (\<lambda>entry. the (scalePoint_apply ?vs (Num (int entry)))) [0..<length d] = ?vs"
    by (rule nth_equalityI) (simp_all add: scalePoint_values_length js_index_def)
  with assms show ?thesis
    by (simp add: createScale_def Let_def)
qed

lemma coordinateAt_createScale:
  assumes "d \<noteq> []"
  shows "coordinateAt (createScale (Some d) si ei x width travellerWidth) i
           = js_index (scalePoint_values (length d) x (x + width - travellerWidth)) i"
  using assms by (simp add: coordinateAt_def createScale_def Let_def)

lemma scalePoint_values_in_range:
  assumes "r0 \<le> r1" and "v \<in> set (scalePoint_values n r0 r1)"
  shows "r0 \<le> v \<and> v \<le> r1"
proof -
  from assms(2) obtain i where i: "i < n" and v: "v = scalePoint_values n r0 r1 ! i"
    by (auto simp: in_set_conv_nth scalePoint_values_length)
  show ?thesis
  proof (cases "2 \<le> n")
    case True
    have n1: "0 < (of_nat n :: rat) - 1" using True by auto
    have q: "0 \<le> (of_nat i :: rat) / (of_nat n - 1)" "(of_nat i :: rat) / (of_nat n - 1) \<le> 1"
      using i n1 True by (simp_all add: of_nat_diff Suc_leI)
    have "v = r0 + (of_nat i / (of_nat n - 1)) * (r1 - r0)"
      unfolding v scalePoint_values_nth [OF True i] by simp
    moreover have "0 \<le> (of_nat i / (of_nat n - 1)) * (r1 - r0)"
      using q(1) assms(1) by (intro mult_nonneg_nonneg) simp_all
    moreover have "(of_nat i / (of_nat n - 1)) * (r1 - r0) \<le> 1 * (r1 - r0)"
      using q(2) assms(1) by (intro mult_right_mono) simp_all
    ultimately show ?thesis by simp
  next
    case False
    with i have "n = Suc 0" by simp
    with i v have "v = (r0 + r1) / 2"
      by (simp add: scalePoint_values_single)
    with assms(1) show ?thesis by simp
  qed
qed

section \<open>Properties of the handlers\<close>

lemma clamp_delta_traveller_in_track:
  assumes "p_travellerWidth props \<le> p_width props" and "in_track props v"
  shows "in_track props (v + clamp_delta_traveller props v delta)"
  using assms by (auto simp: in_track_def clamp_delta_traveller_def)

lemma tp_get_tp_set: "tp_get (tp_set tp a v) b = (if a = b then v else tp_get tp b)"
  by (cases a; cases b) simp_all

lemma handleTravellerMove_state:
  "fst (handleTravellerMove props scaleValues st pageX) =
     st\<lparr>travellerPositions :=
          tp_set (travellerPositions st) (movingTravellerId st)
            (tp_get (travellerPositions st) (movingTravellerId st)
              + clamp_delta_traveller props (tp_get (travellerPositions st) (movingTravellerId st))
                  (pageX - brushMoveStartX st)),
        brushMoveStartX := pageX\<rparr>"
  by (simp add: handleTravellerMove_def Let_def)

lemma indexOf_from_range:
  "indexOf_from xs v i = - 1 \<or> (i \<le> indexOf_from xs v i \<and> indexOf_from xs v i < i + int (length xs))"
  by (induction xs arbitrary: i) (auto, force+)

lemma indexOf_from_nth:
  "0 \<le> i \<Longrightarrow> indexOf_from xs v i \<noteq> - 1 \<Longrightarrow> xs ! nat (indexOf_from xs v i - i) = v"
proof (induction xs arbitrary: i)
  case Nil
  then show ?case by simp
next
  case (Cons y ys)
  show ?case
  proof (cases "y = v")
    case True
    then show ?thesis by simp
  next
    case False
    with Cons.prems have r: "indexOf_from ys v (i + 1) \<noteq> - 1" by simp
    from indexOf_from_range [of ys v "i + 1"] r
    have "i + 1 \<le> indexOf_from ys v (i + 1)" by auto
    then have "nat (indexOf_from ys v (i + 1) - i) = Suc (nat (indexOf_from ys v (i + 1) - (i + 1)))"
      by simp
    with False Cons.IH [of "i + 1"] Cons.prems r show ?thesis by simp
  qed
qed

lemma indexOf_range: "indexOf xs v = - 1 \<or> (0 \<le> indexOf xs v \<and> indexOf xs v < int (length xs))"
  using indexOf_from_range [of xs v 0] by (simp add: indexOf_def)

lemma indexOf_nth: "indexOf xs v \<noteq> - 1 \<Longrightarrow> xs ! nat (indexOf xs v) = v"
  using indexOf_from_nth [of 0 xs v] by (simp add: indexOf_def)

text \<open>
  The window that \<open>handleTravellerMove\<close> passes to \<open>onChange\<close> is the one of the positions
  before the move; the window that \<open>handleSlideDrag\<close> passes is the one of the positions
  after the move.
\<close>

lemma handleTravellerMove_window_of_previous_positions:
  "set (snd (handleTravellerMove props scaleValues st pageX))
     \<subseteq> {getIndex (tp_startX (travellerPositions st)) (tp_endX (travellerPositions st))
           scaleValues (p_gap props) (p_data props)}"
  by (auto simp: handleTravellerMove_def Let_def)

lemma handleSlideDrag_window_of_final_positions:
  "set (snd (handleSlideDrag props scaleValues st pageX))
     \<subseteq> {getIndex (tp_startX (travellerPositions (fst (handleSlideDrag props scaleValues st pageX))))
            (tp_endX (travellerPositions (fst (handleSlideDrag props scaleValues st pageX))))
            scaleValues (p_gap props) (p_data props)}"
  by (auto simp: handleSlideDrag_def Let_def)

lemma indexOf_from_minus1_iff: "0 \<le> i \<Longrightarrow> indexOf_from xs v i = - 1 \<longleftrightarrow> v \<notin> set xs"
proof (induction xs arbitrary: i)
  case Nil
  then show ?case by simp
next
  case (Cons y ys)
  from Cons.prems Cons.IH [of "i + 1"] show ?case by auto
qed

lemma indexOf_minus1_iff: "indexOf xs v = - 1 \<longleftrightarrow> v \<notin> set xs"
  by (simp add: indexOf_def indexOf_from_minus1_iff)

text \<open>
  The coordinates of the table and the initial positions are inside the track when the
  track is at least as wide as a traveller.
\<close>

lemma RedoBrush_scaleValues_in_track:
  assumes "p_travellerWidth props \<le> p_width props"
    and "RedoBrush_scaleValues props = Some scaleValues" and "v \<in> set scaleValues"
  shows "in_track props v"
proof -
  from assms(2) have ne: "p_data props \<noteq> []"
    by (auto simp: RedoBrush_scaleValues_def split: if_splits)
  with assms(2) have "scaleValues = scalePoint_values (length (p_data props)) (p_x props)
      (p_x props + p_width props - p_travellerWidth props)"
    by (simp add: RedoBrush_scaleValues_def createScale_scaleValues)
  with assms(1,3) scalePoint_values_in_range [of "p_x props"
      "p_x props + p_width props - p_travellerWidth props" v "length (p_data props)"]
  show ?thesis by (simp add: in_track_def)
qed

lemma initial_travellerPositions_in_table:
  assumes "RedoBrush_scaleValues props = Some scaleValues"
    and "initial_travellerPositions props = Some tp0"
  shows "tp_startX tp0 \<in> set scaleValues \<and> tp_endX tp0 \<in> set scaleValues"
proof -
  from assms(1) have ne: "p_data props \<noteq> []"
    by (auto simp: RedoBrush_scaleValues_def split: if_splits)
  let ?vs = "scalePoint_values (length (p_data props)) (p_x props)
      (p_x props + p_width props - p_travellerWidth props)"
  from assms(1) ne have sv: "scaleValues = ?vs"
    by (simp add: RedoBrush_scaleValues_def createScale_scaleValues)
  have ap: "scalePoint_apply ?vs i = Some a \<Longrightarrow> a \<in> set ?vs" for i a
    by (cases i) (auto simp: js_index_def split: if_splits)
  from assms(2) ne obtain a b where
    "scalePoint_apply ?vs (p_startIndex props) = Some a"
    "scalePoint_apply ?vs (p_endIndex props) = Some b" "tp0 = \<lparr>tp_startX = a, tp_endX = b\<rparr>"
    by (auto simp: initial_travellerPositions_def createScale_def Let_def split: option.splits)
  with ap sv show ?thesis by auto
qed

text \<open>
  Each handler keeps the travellers inside the track and at integer positions.
\<close>

lemma clamp_delta_slide_in_track:
  assumes "in_track props a" and "in_track props b"
  shows "in_track props (a + clamp_delta_slide props a b delta) \<and>
         in_track props (b + clamp_delta_slide props a b delta)"
  using assms by (auto simp: in_track_def clamp_delta_slide_def)

lemma Ints_min: "(a::rat) \<in> \<int> \<Longrightarrow> b \<in> \<int> \<Longrightarrow> min a b \<in> \<int>"
  by (simp add: min_def)

lemma Ints_max: "(a::rat) \<in> \<int> \<Longrightarrow> b \<in> \<int> \<Longrightarrow> max a b \<in> \<int>"
  by (simp add: max_def)

lemma clamp_delta_traveller_Ints:
  assumes "p_x props \<in> \<int>" "p_width props \<in> \<int>" "p_travellerWidth props \<in> \<int>" "v \<in> \<int>" "delta \<in> \<int>"
  shows "clamp_delta_traveller props v delta \<in> \<int>"
  using assms by (simp add: clamp_delta_traveller_def Ints_min Ints_max)

lemma clamp_delta_slide_Ints:
  assumes "p_x props \<in> \<int>" "p_width props \<in> \<int>" "p_travellerWidth props \<in> \<int>"
    "a \<in> \<int>" "b \<in> \<int>" "delta \<in> \<int>"
  shows "clamp_delta_slide props a b delta \<in> \<int>"
  using assms by (simp add: clamp_delta_slide_def Ints_min Ints_max)

lemma handleTravellerMove_invariant:
  assumes g: "p_x props \<in> \<int>" "p_width props \<in> \<int>" "p_travellerWidth props \<in> \<int>"
      "p_travellerWidth props \<le> p_width props"
    and p: "pageX \<in> \<int>" and m: "isTravellerMoving st" and inv: "brush_invariant props st"
  shows "brush_invariant props (fst (handleTravellerMove props scaleValues st pageX))"
proof -
  let ?tp = "travellerPositions st"
  let ?prev = "tp_get ?tp (movingTravellerId st)"
  let ?d = "clamp_delta_traveller props ?prev (pageX - brushMoveStartX st)"
  from inv m have b: "brushMoveStartX st \<in> \<int>" by (simp add: brush_invariant_def)
  from inv have pi: "?prev \<in> \<int>" and pt: "in_track props ?prev"
    by (cases "movingTravellerId st"; simp add: brush_invariant_def)+
  have di: "?d \<in> \<int>"
    using g(1-3) pi p b by (intro clamp_delta_traveller_Ints) simp_all
  have nt: "in_track props (?prev + ?d)"
    using g(4) pt by (rule clamp_delta_traveller_in_track)
  have ni: "?prev + ?d \<in> \<int>" using pi di by simp
  show ?thesis
    using inv nt ni p m
    by (cases "movingTravellerId st") (simp_all add: handleTravellerMove_state brush_invariant_def)
qed

lemma handleSlideDrag_invariant:
  assumes g: "p_x props \<in> \<int>" "p_width props \<in> \<int>" "p_travellerWidth props \<in> \<int>"
    and p: "pageX \<in> \<int>" and m: "isSlideMoving st" "\<not> isTravellerMoving st"
    and inv: "brush_invariant props st"
  shows "brush_invariant props (fst (handleSlideDrag props scaleValues st pageX))"
proof -
  let ?a = "tp_startX (travellerPositions st)"
  let ?b = "tp_endX (travellerPositions st)"
  let ?d = "clamp_delta_slide props ?a ?b (pageX - slideMoveStartX st)"
  from inv m have s: "slideMoveStartX st \<in> \<int>" by (simp add: brush_invariant_def)
  from inv have ab: "?a \<in> \<int>" "?b \<in> \<int>" "in_track props ?a" "in_track props ?b"
    by (simp_all add: brush_invariant_def)
  have di: "?d \<in> \<int>"
    using g ab(1,2) p s by (intro clamp_delta_slide_Ints) simp_all
  from clamp_delta_slide_in_track [OF ab(3,4)]
  have nt: "in_track props (?a + ?d)" "in_track props (?b + ?d)" by simp_all
  show ?thesis
    using inv nt ab di p m
    by (simp add: handleSlideDrag_def Let_def brush_invariant_def)
qed

lemma handleTravellerMoveKeyboard_invariant:
  assumes g: "p_travellerWidth props \<le> p_width props"
    and sv: "RedoBrush_scaleValues props = Some scaleValues" "\<forall>v\<in>set scaleValues. v \<in> \<int>"
    and inv: "brush_invariant props st"
  shows "brush_invariant props (fst (handleTravellerMoveKeyboard props scaleValues st key id'))"
proof -
  let ?i = "indexOf scaleValues (tp_get (travellerPositions st) id')"
  let ?j = "?i + direction_of key"
  let ?r = "handleTravellerMoveKeyboard props scaleValues st key id'"
  have c: "fst ?r = st \<or>
     (0 \<le> ?j \<and> ?j < int (length scaleValues) \<and>
      fst ?r = st\<lparr>travellerPositions := tp_set (travellerPositions st) id' (scaleValues ! nat ?j)\<rparr>)"
    using indexOf_range [of scaleValues "tp_get (travellerPositions st) id'"]
    by (cases key) (auto simp: handleTravellerMoveKeyboard_def Let_def)
  then show ?thesis
  proof
    assume "fst ?r = st"
    with inv show ?thesis by simp
  next
    assume h: "0 \<le> ?j \<and> ?j < int (length scaleValues) \<and>
      fst ?r = st\<lparr>travellerPositions := tp_set (travellerPositions st) id' (scaleValues ! nat ?j)\<rparr>"
    then have "nat ?j < length scaleValues" by linarith
    then have mem: "scaleValues ! nat ?j \<in> set scaleValues" by (rule nth_mem)
    with sv(2) have vi: "scaleValues ! nat ?j \<in> \<int>" by blast
    from RedoBrush_scaleValues_in_track [OF g sv(1) mem]
    have vt: "in_track props (scaleValues ! nat ?j)" .
    from h inv vi vt show ?thesis
      by (cases id') (simp_all add: brush_invariant_def)
  qed
qed

lemma handle_event_invariant:
  assumes g: "p_x props \<in> \<int>" "p_width props \<in> \<int>" "p_travellerWidth props \<in> \<int>"
      "p_travellerWidth props \<le> p_width props"
    and sv: "RedoBrush_scaleValues props = Some scaleValues" "\<forall>v\<in>set scaleValues. v \<in> \<int>"
    and ev: "exact_event ev" and inv: "brush_invariant props st"
  shows "brush_invariant props (handle_event props scaleValues st ev)"
proof (cases ev)
  case (TravellerDragStart id' pageX)
  with ev inv show ?thesis
    by (simp add: handleTravellerDragStart_def brush_invariant_def exact_pixel_def)
next
  case (SlideDragStart pageX)
  with ev inv show ?thesis
    by (simp add: handleSlideDragStart_def brush_invariant_def exact_pixel_def)
next
  case (Drag pageX)
  with ev have p: "pageX \<in> \<int>" by (simp add: exact_pixel_def)
  show ?thesis
  proof (cases "isTravellerMoving st")
    case True
    with handleTravellerMove_invariant [OF g p True inv, of scaleValues] Drag show ?thesis
      by (simp add: handleDrag_def)
  next
    case nt: False
    show ?thesis
    proof (cases "isSlideMoving st")
      case True
      with handleSlideDrag_invariant [OF g(1-3) p True nt inv, of scaleValues] Drag nt show ?thesis
        by (simp add: handleDrag_def)
    next
      case False
      with nt Drag inv show ?thesis by (simp add: handleDrag_def)
    qed
  qed
next
  case DragEnd
  with inv show ?thesis
    by (simp add: handleDragEnd_def brush_invariant_def)
next
  case (KeyDown key id')
  with handleTravellerMoveKeyboard_invariant [OF g(4) sv inv, of key id'] show ?thesis
    by simp
qed

lemma run_events_invariant:
  assumes g: "p_x props \<in> \<int>" "p_width props \<in> \<int>" "p_travellerWidth props \<in> \<int>"
      "p_travellerWidth props \<le> p_width props"
    and sv: "RedoBrush_scaleValues props = Some scaleValues" "\<forall>v\<in>set scaleValues. v \<in> \<int>"
  shows "\<forall>ev\<in>set events. exact_event ev \<Longrightarrow> brush_invariant props st \<Longrightarrow>
     brush_invariant props (run_events props scaleValues st events)"
proof (induction events arbitrary: st)
  case Nil
  then show ?case by simp
next
  case (Cons ev evs)
  from Cons.prems have e: "exact_event ev" and es: "\<forall>ev\<in>set evs. exact_event ev" by simp_all
  from handle_event_invariant [OF g sv e Cons.prems(2)]
  have "brush_invariant props (handle_event props scaleValues st ev)" .
  from Cons.IH [OF es this] show ?case by simp
qed

text \<open>The state after an event does not depend on the committed window.\<close>

lemma handle_event_committed_window:
  "handle_event (props\<lparr>p_startIndex := a, p_endIndex := b\<rparr>) scaleValues st ev
     = handle_event props scaleValues st ev"
proof (cases ev)
  case (Drag pageX)
  have "fst (handleTravellerMove (props\<lparr>p_startIndex := a, p_endIndex := b\<rparr>) scaleValues st pageX)
      = fst (handleTravellerMove props scaleValues st pageX)"
    by (simp add: handleTravellerMove_state clamp_delta_traveller_def)
  moreover have "fst (handleSlideDrag (props\<lparr>p_startIndex := a, p_endIndex := b\<rparr>) scaleValues st pageX)
      = fst (handleSlideDrag props scaleValues st pageX)"
    by (simp add: handleSlideDrag_def Let_def clamp_delta_slide_def)
  ultimately show ?thesis using Drag by (simp add: handleDrag_def)
next
  case (KeyDown key id')
  have "handleTravellerMoveKeyboard (props\<lparr>p_startIndex := a, p_endIndex := b\<rparr>) scaleValues st key id'
      = handleTravellerMoveKeyboard props scaleValues st key id'"
    by (cases id') (simp_all add: handleTravellerMoveKeyboard_def Let_def)
  with KeyDown show ?thesis by simp
qed simp_all

section \<open>Claims about getIndexInRange\<close>

text \<open>
  Claim C9. \<open>getIndexInRange\<close> terminates on every table and every \<open>x\<close>, sorted or not and
  with or without duplicates: each iteration of the loop body strictly narrows the bounds
  (the new bounds lie within the old ones, are closer together, and keep \<open>start < end\<close>),
  and from any bounds the loop leaves after a number \<open>n\<close> of iterations that is at most
  the distance of the bounds, returning the bounds reached. The loop function itself is
  total: its termination is proved with the measure \<open>end - start\<close>.
\<close>

theorem getIndexInRange_terminates:
  "(1 < end' - start \<longrightarrow>
      (case getIndexInRange_step valueRange x (start, end') of
         (s, e) \<Rightarrow> start \<le> s \<and> s < e \<and> e \<le> end' \<and> e - s < end' - start)) \<and>
   (\<exists>n. n \<le> nat (end' - start) \<and>
      \<not> 1 < snd ((getIndexInRange_step valueRange x ^^ n) (start, end'))
             - fst ((getIndexInRange_step valueRange x ^^ n) (start, end')) \<and>
      (\<forall>k<n. 1 < snd ((getIndexInRange_step valueRange x ^^ k) (start, end'))
             - fst ((getIndexInRange_step valueRange x ^^ k) (start, end'))) \<and>
      getIndexInRange_loop valueRange x (start, end')
        = (getIndexInRange_step valueRange x ^^ n) (start, end'))"
proof
  show "1 < end' - start \<longrightarrow>
      (case getIndexInRange_step valueRange x (start, end') of
         (s, e) \<Rightarrow> start \<le> s \<and> s < e \<and> e \<le> end' \<and> e - s < end' - start)"
  proof
    assume g: "1 < end' - start"
    obtain s e where st: "getIndexInRange_step valueRange x (start, end') = (s, e)"
      by (cases "getIndexInRange_step valueRange x (start, end')")
    from getIndexInRange_step_narrows [OF g st] st
    show "case getIndexInRange_step valueRange x (start, end') of
         (s, e) \<Rightarrow> start \<le> s \<and> s < e \<and> e \<le> end' \<and> e - s < end' - start"
      by simp
  qed
next
  from getIndexInRange_loop_iterates [of "(start, end')" valueRange x]
  show "\<exists>n. n \<le> nat (end' - start) \<and>
      \<not> 1 < snd ((getIndexInRange_step valueRange x ^^ n) (start, end'))
             - fst ((getIndexInRange_step valueRange x ^^ n) (start, end')) \<and>
      (\<forall>k<n. 1 < snd ((getIndexInRange_step valueRange x ^^ k) (start, end'))
             - fst ((getIndexInRange_step valueRange x ^^ k) (start, end'))) \<and>
      getIndexInRange_loop valueRange x (start, end')
        = (getIndexInRange_step valueRange x ^^ n) (start, end')"
    by simp
qed

text \<open>
  A table with unsorted duplicate coordinates: the first iteration narrows the bounds
  \<open>(0, 5)\<close>, and the loop returns.
\<close>

theorem getIndexInRange_terminates_witness:
  "(1::int) < 5 - 0 \<and>
   (case getIndexInRange_step [5, 3, 9, 1, 1, 7] 4 (0, 5) of (s, e) \<Rightarrow> 0 \<le> s \<and> s < e \<and> e \<le> 5 \<and> e - s < 5 - 0) \<and>
   (\<exists>n\<le>5. getIndexInRange_loop [5, 3, 9, 1, 1, 7] 4 (0, 5)
             = (getIndexInRange_step [5, 3, 9, 1, 1, 7] 4 ^^ n) (0, 5))"
proof -
  note t = getIndexInRange_terminates
    [where start = 0 and end' = 5 and valueRange = "[5, 3, 9, 1, 1, 7]" and x = 4]
  have g: "(1::int) < 5 - 0" by simp
  from t [THEN conjunct1, rule_format, OF g]
  have narrow: "case getIndexInRange_step [5, 3, 9, 1, 1, 7] 4 (0, 5) of
      (s, e) \<Rightarrow> 0 \<le> s \<and> s < e \<and> e \<le> 5 \<and> e - s < 5 - 0" .
  from t [THEN conjunct2] obtain n where "n \<le> nat (5 - 0)"
    and "getIndexInRange_loop [5, 3, 9, 1, 1, 7] 4 (0, 5)
           = (getIndexInRange_step [5, 3, 9, 1, 1, 7] 4 ^^ n) (0, 5)"
    by blast
  then have "\<exists>n\<le>5. getIndexInRange_loop [5, 3, 9, 1, 1, 7] 4 (0, 5)
             = (getIndexInRange_step [5, 3, 9, 1, 1, 7] 4 ^^ n) (0, 5)"
    by (intro exI [of _ n]) simp
  with g narrow show ?thesis by (intro conjI)
qed

text \<open>
  Claim C2. On a table with at least one element the loop of \<open>getIndexInRange\<close> ends with
  bounds \<open>start\<close>, \<open>end\<close> that are indices of the table, adjacent when the table has more
  than one element, and that enclose \<open>x\<close> the way the search leaves them: \<open>start\<close> is 0
  or holds a coordinate that is at most \<open>x\<close>, and \<open>end\<close> is the last index or holds a
  coordinate above \<open>x\<close>. \<open>getIndexInRange\<close> returns \<open>end\<close> when \<open>x >= valueRange[end]\<close> and
  \<open>start\<close> otherwise. On a table with exactly one element it returns 0 for every \<open>x\<close>. On
  a sorted table the result is the insertion point of \<open>x\<close>: the indices up to the result
  are index 0 and those whose coordinate is at most \<open>x\<close>.
\<close>

theorem getIndexInRange_final_bounds:
  "valueRange \<noteq> [] \<longrightarrow>
     (\<exists>start end'.
        getIndexInRange_loop valueRange x (0, int (length valueRange) - 1) = (start, end') \<and>
        0 \<le> start \<and> start \<le> end' \<and> end' \<le> start + 1 \<and> end' < int (length valueRange) \<and>
        (1 < length valueRange \<longrightarrow> end' = start + 1) \<and>
        (start = 0 \<or> valueRange ! nat start \<le> x) \<and>
        (end' = int (length valueRange) - 1 \<or> x < valueRange ! nat end') \<and>
        getIndexInRange valueRange x = (if x \<ge> valueRange ! nat end' then end' else start)) \<and>
     (length valueRange = 1 \<longrightarrow> getIndexInRange valueRange x = 0) \<and>
     (sorted valueRange \<longrightarrow>
        (\<forall>k < length valueRange.
           int k \<le> getIndexInRange valueRange x \<longleftrightarrow> k = 0 \<or> valueRange ! k \<le> x))"
proof
  assume "valueRange \<noteq> []"
  then have ne: "(0::int) \<le> int (length valueRange) - 1"
    by (cases valueRange) simp_all
  obtain s e where l: "getIndexInRange_loop valueRange x (0, int (length valueRange) - 1) = (s, e)"
    by (cases "getIndexInRange_loop valueRange x (0, int (length valueRange) - 1)")
  from getIndexInRange_loop_bounds [OF ne l]
  have b: "0 \<le> s" "s \<le> e" "e \<le> s + 1" "e < int (length valueRange)"
    and adj: "1 < length valueRange \<longrightarrow> e = s + 1" by auto
  have inv: "(s = 0 \<or> valueRange ! nat s \<le> x) \<and> (e = int (length valueRange) - 1 \<or> x < valueRange ! nat e)"
    by (rule getIndexInRange_loop_brackets [OF _ ne _ _ _ l]) simp_all
  have r: "getIndexInRange valueRange x = (if x \<ge> valueRange ! nat e then e else s)"
    using l b by (simp add: getIndexInRange_def js_index_def)
  have one: "length valueRange = 1 \<longrightarrow> getIndexInRange valueRange x = 0"
    using b r by auto
  have srt: "sorted valueRange \<longrightarrow>
        (\<forall>k < length valueRange.
           int k \<le> getIndexInRange valueRange x \<longleftrightarrow> k = 0 \<or> valueRange ! k \<le> x)"
    using getIndexInRange_sorted [of valueRange _ x] by blast
  from l b adj inv r have "\<exists>start end'.
        getIndexInRange_loop valueRange x (0, int (length valueRange) - 1) = (start, end') \<and>
        0 \<le> start \<and> start \<le> end' \<and> end' \<le> start + 1 \<and> end' < int (length valueRange) \<and>
        (1 < length valueRange \<longrightarrow> end' = start + 1) \<and>
        (start = 0 \<or> valueRange ! nat start \<le> x) \<and>
        (end' = int (length valueRange) - 1 \<or> x < valueRange ! nat end') \<and>
        getIndexInRange valueRange x = (if x \<ge> valueRange ! nat end' then end' else start)"
    by blast
  with one srt show "(\<exists>start end'.
        getIndexInRange_loop valueRange x (0, int (length valueRange) - 1) = (start, end') \<and>
        0 \<le> start \<and> start \<le> end' \<and> end' \<le> start + 1 \<and> end' < int (length valueRange) \<and>
        (1 < length valueRange \<longrightarrow> end' = start + 1) \<and>
        (start = 0 \<or> valueRange ! nat start \<le> x) \<and>
        (end' = int (length valueRange) - 1 \<or> x < valueRange ! nat end') \<and>
        getIndexInRange valueRange x = (if x \<ge> valueRange ! nat end' then end' else start)) \<and>
     (length valueRange = 1 \<longrightarrow> getIndexInRange valueRange x = 0) \<and>
     (sorted valueRange \<longrightarrow>
        (\<forall>k < length valueRange.
           int k \<le> getIndexInRange valueRange x \<longleftrightarrow> k = 0 \<or> valueRange ! k \<le> x))"
    by blast
qed

theorem getIndexInRange_final_bounds_witness:
  "[0, 10, 20, 30, 40, 50 :: rat] \<noteq> [] \<and> sorted [0, 10, 20, 30, 40, 50 :: rat] \<and>
   getIndexInRange_loop [0, 10, 20, 30, 40, 50] 45 (0, 5) = (4, 5) \<and>
   getIndexInRange [0, 10, 20, 30, 40, 50] 45 = 4 \<and>
   [0, 10, 20, 30, 40, 50 :: rat] ! 4 \<le> 45 \<and> (45 :: rat) < [0, 10, 20, 30, 40, 50] ! 5 \<and>
   getIndexInRange [0, 10, 20, 30, 40, 50] 50 = 5 \<and>
   getIndexInRange [5, 3, 9, 1, 1, 7] 4 = 1 \<and>
   length [5 :: rat] = 1 \<and> getIndexInRange [5] 7 = 0 \<and> getIndexInRange [5] 3 = 0"
proof -
  let ?t = "[0, 10, 20, 30, 40, 50] :: rat list"
  let ?u = "[5, 3, 9, 1, 1, 7] :: rat list"
  have ne: "?t \<noteq> []" and srt: "sorted ?t" by simp_all
  have l: "getIndexInRange_loop ?t 45 (0, 5) = (4, 5)" by code_simp
  have lu: "getIndexInRange_loop ?u 4 (0, 5) = (1, 2)" by code_simp
  note t45 = getIndexInRange_final_bounds [of ?t 45, THEN mp, OF ne]
  from t45 l have sel: "getIndexInRange ?t 45 = (if 45 \<ge> ?t ! nat 5 then 5 else 4)"
    by auto
  then have r45: "getIndexInRange ?t 45 = 4" by simp
  from t45 l have nb: "?t ! nat 4 \<le> 45" "45 < ?t ! nat 5" by auto
  have l50: "getIndexInRange_loop ?t 50 (0, 5) = (4, 5)" by code_simp
  from getIndexInRange_final_bounds [of ?t 50, THEN mp, OF ne] l50
  have r50: "getIndexInRange ?t 50 = 5" by auto
  from getIndexInRange_final_bounds [of ?u 4] lu
  have ru: "getIndexInRange ?u 4 = 1" by auto
  have one: "getIndexInRange [5] 7 = 0" "getIndexInRange [5] 3 = 0"
    using getIndexInRange_final_bounds [of "[5]" 7] getIndexInRange_final_bounds [of "[5]" 3]
    by simp_all
  from ne srt l r45 nb r50 ru one show ?thesis by simp
qed

text \<open>
  Claim C8. \<open>getIndexInRange\<close> is monotonic in \<open>x\<close>, on every table (sorted or not):
  for \<open>x1 < x2\<close> the index found for \<open>x1\<close> is at most the index found for \<open>x2\<close>.
\<close>

theorem getIndexInRange_monotonic:
  "x1 < x2 \<Longrightarrow> getIndexInRange valueRange x1 \<le> getIndexInRange valueRange x2"
  by (rule getIndexInRange_mono_le) simp

theorem getIndexInRange_monotonic_witness:
  "(3 :: rat) < 25 \<and> getIndexInRange [0, 10, 20, 30] 3 \<le> getIndexInRange [0, 10, 20, 30] 25"
  using getIndexInRange_monotonic [of 3 25 "[0, 10, 20, 30]"] by simp

section \<open>Claims about getIndex\<close>

text \<open>
  Claim C1. For every gap of at least 1, every coordinate table and every data array,
  \<open>getIndex\<close> returns \<open>startIndex = minIndex - (minIndex mod gap)\<close>, and \<open>endIndex = maxIndex\<close>
  when \<open>maxIndex\<close> is the last index of the data, else \<open>maxIndex - (maxIndex mod gap)\<close>, where
  \<open>minIndex\<close> and \<open>maxIndex\<close> are the results of \<open>getIndexInRange\<close> for the smaller and the
  larger of the two positions. With gap 1 the result is these two indices unchanged; with
  a gap above 1 the start index is a multiple of the gap and the end index is a multiple
  of the gap or the last index. (\<open>mod\<close> is the mathematical remainder; it agrees with
  the \<open>%\<close> of the source because the indices are never negative.)
\<close>

theorem getIndex_snaps:
  "1 \<le> gap \<Longrightarrow>
   (let minIndex = getIndexInRange scaleValues (min startX endX);
        maxIndex = getIndexInRange scaleValues (max startX endX);
        lastIndex = int (length data) - 1;
        r = getIndex startX endX scaleValues gap data
    in startIndex r = Num (minIndex - minIndex mod gap) \<and>
       endIndex r = Num (if maxIndex = lastIndex then maxIndex else maxIndex - maxIndex mod gap) \<and>
       (gap = 1 \<longrightarrow> r = \<lparr>startIndex = Num minIndex, endIndex = Num maxIndex\<rparr>) \<and>
       (1 < gap \<longrightarrow>
          (\<exists>s e. r = \<lparr>startIndex = Num s, endIndex = Num e\<rparr> \<and> gap dvd s \<and> (gap dvd e \<or> e = lastIndex))))"
proof -
  assume g: "1 \<le> gap"
  let ?lo = "getIndexInRange scaleValues (min startX endX)"
  let ?hi = "getIndexInRange scaleValues (max startX endX)"
  let ?r = "getIndex startX endX scaleValues gap data"
  note eq = getIndex_eq [OF g, of startX endX scaleValues data]
  have a: "startIndex ?r = Num (?lo - ?lo mod gap)"
    by (simp only: eq BrushStartEndIndex.simps)
  have b: "endIndex ?r = Num (if ?hi = int (length data) - 1 then ?hi else ?hi - ?hi mod gap)"
    by (simp only: eq BrushStartEndIndex.simps)
  have c: "gap = 1 \<longrightarrow> ?r = \<lparr>startIndex = Num ?lo, endIndex = Num ?hi\<rparr>"
  proof
    assume g1: "gap = 1"
    have "getIndex startX endX scaleValues 1 data = \<lparr>startIndex = Num ?lo, endIndex = Num ?hi\<rparr>"
      using getIndex_eq [of 1 startX endX scaleValues data] by simp
    then show "?r = \<lparr>startIndex = Num ?lo, endIndex = Num ?hi\<rparr>"
      by (simp only: g1)
  qed
  have d1: "gap dvd ?lo - ?lo mod gap" and d2: "gap dvd ?hi - ?hi mod gap"
    by (simp_all add: minus_mod_eq_mult_div)
  have d: "1 < gap \<longrightarrow>
      (\<exists>s e. ?r = \<lparr>startIndex = Num s, endIndex = Num e\<rparr> \<and> gap dvd s \<and>
         (gap dvd e \<or> e = int (length data) - 1))"
  proof (cases "?hi = int (length data) - 1")
    case True
    then have "?r = \<lparr>startIndex = Num (?lo - ?lo mod gap), endIndex = Num ?hi\<rparr>"
      by (simp add: eq)
    with d1 True show ?thesis by blast
  next
    case False
    then have "?r = \<lparr>startIndex = Num (?lo - ?lo mod gap), endIndex = Num (?hi - ?hi mod gap)\<rparr>"
      by (simp add: eq)
    with d1 d2 show ?thesis by blast
  qed
  from a b c d show ?thesis
    unfolding Let_def by (intro conjI)
qed

theorem getIndex_snaps_witness:
  "(1::int) \<le> 2 \<and>
   getIndex 50 25 [0, 10, 20, 30, 40, 50, 60, 70] 2 [(), (), (), (), (), (), (), ()]
     = \<lparr>startIndex = Num 2, endIndex = Num 4\<rparr>"
proof -
  have g: "(1::int) \<le> 2" by simp
  have lo: "getIndexInRange [0, 10, 20, 30, 40, 50, 60, 70] (min 50 25) = 2"
    by code_simp
  have hi: "getIndexInRange [0, 10, 20, 30, 40, 50, 60, 70] (max 50 25) = 5"
    by code_simp
  from getIndex_snaps [OF g, of "[0, 10, 20, 30, 40, 50, 60, 70]" 50 25
      "[(), (), (), (), (), (), (), ()]"]
  have "startIndex (getIndex 50 25 [0, 10, 20, 30, 40, 50, 60, 70] 2 [(), (), (), (), (), (), (), ()]) = Num 2"
    and "endIndex (getIndex 50 25 [0, 10, 20, 30, 40, 50, 60, 70] 2 [(), (), (), (), (), (), (), ()]) = Num 4"
    unfolding Let_def lo hi by simp_all
  then have "getIndex 50 25 [0, 10, 20, 30, 40, 50, 60, 70] 2 [(), (), (), (), (), (), (), ()]
     = \<lparr>startIndex = Num 2, endIndex = Num 4\<rparr>"
    by (cases "getIndex 50 25 [0, 10, 20, 30, 40, 50, 60, 70] 2 [(), (), (), (), (), (), (), ()]") simp
  with g show ?thesis by simp
qed

text \<open>
  Claim C10. For every non-empty data array, every gap of at least 1 and every coordinate
  table of the data (one coordinate for each data index, so of the length of the data;
  it need not even be sorted), \<open>getIndex\<close> returns a window of two integers with
  \<open>0 \<le> startIndex \<le> endIndex \<le> data.length - 1\<close>, whatever the order of the two positions.
\<close>

theorem getIndex_window:
  assumes "data \<noteq> []" and "1 \<le> gap" and "length scaleValues = length data"
  shows "\<exists>s e. getIndex startX endX scaleValues gap data = \<lparr>startIndex = Num s, endIndex = Num e\<rparr> \<and>
           0 \<le> s \<and> s \<le> e \<and> e \<le> int (length data) - 1"
proof -
  let ?lo = "getIndexInRange scaleValues (min startX endX)"
  let ?hi = "getIndexInRange scaleValues (max startX endX)"
  from assms have ne: "scaleValues \<noteq> []" by auto
  have lo: "0 \<le> ?lo" and hi: "?hi \<le> int (length data) - 1"
    using getIndexInRange_range [of scaleValues "min startX endX"]
      getIndexInRange_range [of scaleValues "max startX endX"] ne assms(3) by simp_all
  have le: "?lo \<le> ?hi"
    by (rule getIndexInRange_mono_le) simp
  have m: "0 \<le> ?lo mod gap" "?lo mod gap \<le> ?lo" "0 \<le> ?hi mod gap"
    using assms(2) lo le by (simp_all add: zmod_le_nonneg_dividend)
  have sm: "?lo - ?lo mod gap \<le> ?hi - ?hi mod gap"
    using assms(2) le by (rule snap_mono)
  show ?thesis
    unfolding getIndex_eq [OF assms(2)]
    using lo hi le m sm by auto
qed

theorem getIndex_window_witness:
  "[(), (), (), (), (), ()] \<noteq> [] \<and> (1::int) \<le> 2 \<and>
   length [0, 10, 20, 30, 40, 50 :: rat] = length [(), (), (), (), (), ()] \<and>
   (\<exists>s e. getIndex 45 12 [0, 10, 20, 30, 40, 50] 2 [(), (), (), (), (), ()]
             = \<lparr>startIndex = Num s, endIndex = Num e\<rparr> \<and> 0 \<le> s \<and> s \<le> e \<and> e \<le> 5)"
  using getIndex_window [of "[(), (), (), (), (), ()]" 2 "[0, 10, 20, 30, 40, 50]" 45 12]
  by simp

section \<open>Claims about createScale\<close>

text \<open>
  Claim C3, as stated, fails for a single data point: index 0 is then also index
  \<open>dataLength - 1\<close>, and one coordinate cannot be both ends of a track whose width
  differs from the traveller width. With one data point, \<open>x = 0\<close>, \<open>width = 10\<close> and
  \<open>travellerWidth = 5\<close> the point is at \<open>5 / 2\<close>, the middle of the range, neither at
  \<open>0\<close> nor at \<open>5\<close>.
\<close>

theorem createScale_single_point_counterexample:
  "coordinateAt (createScale (Some [()]) (Num 0) (Num 0) 0 10 5) 0 = Some (5 / 2) \<and>
   \<not> (coordinateAt (createScale (Some [()]) (Num 0) (Num 0) 0 10 5) 0 = Some 0 \<and>
      coordinateAt (createScale (Some [()]) (Num 0) (Num 0) 0 10 5) (int (length [()]) - 1)
        = Some (0 + 10 - 5))"
  by (simp add: coordinateAt_createScale scalePoint_values_single js_index_def)

text \<open>
  Claim C3, amended. For every data array with at least two elements and every \<open>x\<close>,
  \<open>width\<close> and \<open>travellerWidth\<close>, the scale built by \<open>createScale\<close> maps index 0 to \<open>x\<close>
  and index \<open>dataLength - 1\<close> to \<open>x + width - travellerWidth\<close>; index \<open>i\<close> is mapped to
  \<open>x + i * (width - travellerWidth) / (dataLength - 1)\<close>, so the \<open>dataLength\<close> points are
  equally spaced, and \<open>scaleValues\<close> is the list of these coordinates. (Exact arithmetic.)
\<close>

theorem createScale_point_scale:
  assumes "2 \<le> length data"
  shows "coordinateAt (createScale (Some data) startIndex' endIndex' x width travellerWidth) 0 = Some x \<and>
         coordinateAt (createScale (Some data) startIndex' endIndex' x width travellerWidth)
           (int (length data) - 1) = Some (x + width - travellerWidth) \<and>
         (\<forall>i < length data.
            coordinateAt (createScale (Some data) startIndex' endIndex' x width travellerWidth) (int i)
              = Some (x + of_nat i * ((width - travellerWidth) / (of_nat (length data) - 1)))) \<and>
         csr_scaleValues (createScale (Some data) startIndex' endIndex' x width travellerWidth)
           = Some (map (\<lambda>i. x + of_nat i * ((width - travellerWidth) / (of_nat (length data) - 1)))
                     [0..<length data])"
proof -
  let ?n = "length data"
  let ?r = "createScale (Some data) startIndex' endIndex' x width travellerWidth"
  let ?vs = "scalePoint_values ?n x (x + width - travellerWidth)"
  let ?c = "\<lambda>i::nat. x + of_nat i * ((width - travellerWidth) / (of_nat ?n - 1))"
  from assms have ne: "data \<noteq> []" by auto
  have nth: "?vs ! i = ?c i" if "i < ?n" for i
    using scalePoint_values_nth [OF assms that, of x "x + width - travellerWidth"] by simp
  have at: "coordinateAt ?r (int i) = Some (?c i)" if "i < ?n" for i
    using that nth [OF that]
    by (simp add: coordinateAt_createScale [OF ne] js_index_def scalePoint_values_length)
  have first: "coordinateAt ?r 0 = Some x"
    using at [of 0] ne by simp
  have n1: "(of_nat ?n :: rat) - 1 \<noteq> 0" using assms by auto
  have "coordinateAt ?r (int (?n - 1)) = Some (?c (?n - 1))"
    using assms by (intro at) simp
  moreover have "int (?n - 1) = int ?n - 1" "(of_nat (?n - 1) :: rat) = of_nat ?n - 1"
    using assms by (simp_all add: of_nat_diff)
  ultimately have last: "coordinateAt ?r (int ?n - 1) = Some (x + width - travellerWidth)"
    using n1 by simp
  have "?vs = map ?c [0..<?n]"
    by (rule nth_equalityI) (simp_all add: scalePoint_values_length nth)
  then have vals: "csr_scaleValues ?r = Some (map ?c [0..<?n])"
    by (simp add: createScale_scaleValues [OF ne])
  from first last at vals show ?thesis by blast
qed

theorem createScale_point_scale_witness:
  "(2::nat) \<le> length [(), (), ()] \<and>
   coordinateAt (createScale (Some [(), (), ()]) (Num 0) (Num 2) 65 30 5) 0 = Some 65 \<and>
   coordinateAt (createScale (Some [(), (), ()]) (Num 0) (Num 2) 65 30 5) 2 = Some 90 \<and>
   csr_scaleValues (createScale (Some [(), (), ()]) (Num 0) (Num 2) 65 30 5) = Some [65, 155 / 2, 90]"
  using createScale_point_scale [of "[(), (), ()]" "Num 0" "Num 2" 65 30 5]
  by (simp add: upt_rec)

text \<open>
  Claim C7, as stated, fails on the second precondition: \<open>createScale\<close> tests its data
  only. With two data points, \<open>width = 5\<close> and \<open>travellerWidth = 10\<close> it returns a populated
  scale, over the descending range from \<open>0\<close> to \<open>- 5\<close>.
\<close>

theorem createScale_narrow_track_counterexample:
  "(5 :: rat) \<le> 10 \<and>
   csr_scaleValues (createScale (Some [(), ()]) (Num 0) (Num 1) 0 5 10) = Some [0, - 5] \<and>
   coordinateAt (createScale (Some [(), ()]) (Num 0) (Num 1) 0 5 10) 1 = Some (- 5) \<and>
   createScale (Some [(), ()]) (Num 0) (Num 1) 0 5 10 \<noteq> empty_CreateScaleReturn"
proof -
  have vs: "scalePoint_values (Suc (Suc 0)) 0 (- 5) = [0, - 5]"
    by (simp add: scalePoint_values_def Let_def upt_rec)
  have a: "csr_scaleValues (createScale (Some [(), ()]) (Num 0) (Num 1) 0 5 10) = Some [0, - 5]"
    using createScale_scaleValues [of "[(), ()]" "Num 0" "Num 1" 0 5 10] vs by simp
  have b: "coordinateAt (createScale (Some [(), ()]) (Num 0) (Num 1) 0 5 10) 1 = Some (- 5)"
    using coordinateAt_createScale [of "[(), ()]" "Num 0" "Num 1" 0 5 10 1] vs
    by (simp add: js_index_def)
  from a have "createScale (Some [(), ()]) (Num 0) (Num 1) 0 5 10 \<noteq> empty_CreateScaleReturn"
    by (auto simp: empty_CreateScaleReturn_def)
  with a b show ?thesis by simp
qed

text \<open>
  Claim C7, amended. \<open>createScale\<close> returns the empty result exactly when the data is
  missing or empty. For non-empty data it returns a populated scale, whatever \<open>width\<close> and
  \<open>travellerWidth\<close> are: a scale and a coordinate table with one coordinate for each
  data index, the coordinate the scale gives to that index.
\<close>

theorem createScale_empty_iff:
  "(createScale data startIndex' endIndex' x width travellerWidth = empty_CreateScaleReturn
      \<longleftrightarrow> data = None \<or> data = Some []) \<and>
   (\<forall>d. data = Some d \<and> d \<noteq> [] \<longrightarrow>
      (\<exists>scale vs. csr_scale (createScale data startIndex' endIndex' x width travellerWidth) = Some scale \<and>
         csr_scaleValues (createScale data startIndex' endIndex' x width travellerWidth) = Some vs \<and>
         length vs = length d \<and>
         (\<forall>i < length d. scale (Num (int i)) = Some (vs ! i))))"
proof (intro conjI allI impI)
  show "createScale data startIndex' endIndex' x width travellerWidth = empty_CreateScaleReturn
      \<longleftrightarrow> data = None \<or> data = Some []"
  proof (cases data)
    case None
    then show ?thesis by (simp add: createScale_def)
  next
    case (Some d)
    show ?thesis
    proof (cases "d = []")
      case True
      with Some show ?thesis by (simp add: createScale_def)
    next
      case False
      have "csr_scaleValues (createScale (Some d) startIndex' endIndex' x width travellerWidth) \<noteq> None"
        by (simp add: createScale_scaleValues [OF False])
      then have "createScale (Some d) startIndex' endIndex' x width travellerWidth \<noteq> empty_CreateScaleReturn"
        by (auto simp: empty_CreateScaleReturn_def)
      with Some False show ?thesis by simp
    qed
  qed
next
  fix d assume d: "data = Some d \<and> d \<noteq> []"
  let ?vs = "scalePoint_values (length d) x (x + width - travellerWidth)"
  have "csr_scale (createScale data startIndex' endIndex' x width travellerWidth) = Some (scalePoint_apply ?vs)"
    using d by (simp add: createScale_def Let_def)
  moreover have "csr_scaleValues (createScale data startIndex' endIndex' x width travellerWidth) = Some ?vs"
    using d by (simp add: createScale_scaleValues)
  moreover have "length ?vs = length d"
    by (rule scalePoint_values_length)
  moreover have "\<forall>i < length d. scalePoint_apply ?vs (Num (int i)) = Some (?vs ! i)"
    by (simp add: js_index_def scalePoint_values_length)
  ultimately show "\<exists>scale vs. csr_scale (createScale data startIndex' endIndex' x width travellerWidth) = Some scale \<and>
         csr_scaleValues (createScale data startIndex' endIndex' x width travellerWidth) = Some vs \<and>
         length vs = length d \<and>
         (\<forall>i < length d. scale (Num (int i)) = Some (vs ! i))"
    by blast
qed

theorem createScale_empty_iff_witness:
  "createScale (None :: unit list option) (Num 0) (Num 0) 0 10 5 = empty_CreateScaleReturn \<and>
   createScale (Some ([] :: unit list)) (Num 0) (Num 0) 0 10 5 = empty_CreateScaleReturn \<and>
   (\<exists>vs. csr_scaleValues (createScale (Some [(), ()]) (Num 0) (Num 1) 0 5 10) = Some vs \<and> length vs = 2)"
proof -
  have a: "createScale (None :: unit list option) (Num 0) (Num 0) 0 10 5 = empty_CreateScaleReturn"
    using createScale_empty_iff [of "None :: unit list option" "Num 0" "Num 0" 0 10 5] by simp
  have b: "createScale (Some ([] :: unit list)) (Num 0) (Num 0) 0 10 5 = empty_CreateScaleReturn"
    using createScale_empty_iff [of "Some ([] :: unit list)" "Num 0" "Num 0" 0 10 5] by simp
  have c: "\<exists>vs. csr_scaleValues (createScale (Some [(), ()]) (Num 0) (Num 1) 0 5 10) = Some vs \<and> length vs = 2"
    using createScale_empty_iff [of "Some [(), ()]" "Num 0" "Num 1" 0 5 10] by auto
  from a b c show ?thesis by blast
qed

section \<open>Claims about the drag and keyboard handlers\<close>

text \<open>
  Claim C5, as stated, fails on its second part: the clamp of \<open>handleTravellerMove\<close> looks
  at the ends of the track only, and a traveller can be dragged over the other one. With
  six data points on the track from 0 with width 55 and traveller width 5, the window
  \<open>(0, 3)\<close> and the initial positions \<open>(0, 30)\<close>, dragging the start traveller by 45 pixels
  puts it at 45, past the end traveller at 30. (\<open>getIndex\<close> orders the two positions.)
\<close>

theorem traveller_drag_passes_other_traveller_counterexample:
  "initial_travellerPositions
     \<lparr>p_x = 0, p_width = 55, p_travellerWidth = 5, p_gap = 1, p_data = [(), (), (), (), (), ()],
      p_startIndex = Num 0, p_endIndex = Num 3\<rparr> = Some \<lparr>tp_startX = 0, tp_endX = 30\<rparr> \<and>
   travellerPositions (run_events
     \<lparr>p_x = 0, p_width = 55, p_travellerWidth = 5, p_gap = 1, p_data = [(), (), (), (), (), ()],
      p_startIndex = Num 0, p_endIndex = Num 3\<rparr>
     [0, 10, 20, 30, 40, 50]
     \<lparr>isTravellerMoving = False, isSlideMoving = False, movingTravellerId = StartX,
      brushMoveStartX = 0, slideMoveStartX = 0,
      travellerPositions = \<lparr>tp_startX = 0, tp_endX = 30\<rparr>\<rparr>
     [TravellerDragStart StartX 0, Drag 45])
   = \<lparr>tp_startX = 45, tp_endX = 30\<rparr> \<and>
   (30 :: rat) < 45"
  by code_simp

text \<open>
  Claim C5, amended. On a track at least as wide as a traveller, with pixel values that
  are integers of size at most \<open>2 ^ 50\<close> (geometry, coordinate table and the \<open>pageX\<close> of
  the events; on these the arithmetic of the handlers is exact in doubles), every move
  event of a traveller drag clamps its delta so that the moving traveller stays inside
  \<open>[x, x + width - travellerWidth]\<close>: starting from the positions the component sets
  initially, after every sequence of events (drag starts, moves, drag ends, arrow keys)
  both travellers are inside that interval, at integer positions. Nothing keeps a
  traveller from passing the other one.
\<close>

theorem travellers_stay_in_track:
  assumes "exact_pixel (p_x props)" and "exact_pixel (p_width props)"
    and "exact_pixel (p_travellerWidth props)"
    and "p_travellerWidth props \<le> p_width props"
    and "RedoBrush_scaleValues props = Some scaleValues" and "\<forall>v\<in>set scaleValues. v \<in> \<int>"
    and "initial_travellerPositions props = Some (travellerPositions st0)"
    and "\<not> isTravellerMoving st0" and "\<not> isSlideMoving st0"
    and "\<forall>ev\<in>set events. exact_event ev"
  shows "in_track props (tp_startX (travellerPositions (run_events props scaleValues st0 events))) \<and>
         in_track props (tp_endX (travellerPositions (run_events props scaleValues st0 events))) \<and>
         tp_startX (travellerPositions (run_events props scaleValues st0 events)) \<in> \<int> \<and>
         tp_endX (travellerPositions (run_events props scaleValues st0 events)) \<in> \<int>"
proof -
  from assms(1-3) have g: "p_x props \<in> \<int>" "p_width props \<in> \<int>" "p_travellerWidth props \<in> \<int>"
    by (simp_all add: exact_pixel_def)
  from initial_travellerPositions_in_table [OF assms(5,7)]
  have mem: "tp_startX (travellerPositions st0) \<in> set scaleValues"
    "tp_endX (travellerPositions st0) \<in> set scaleValues" by simp_all
  have "brush_invariant props st0"
    using mem assms(6,8,9) RedoBrush_scaleValues_in_track [OF assms(4,5)]
    by (simp add: brush_invariant_def)
  from run_events_invariant [OF g assms(4,5,6,10) this]
  show ?thesis by (simp add: brush_invariant_def)
qed

theorem travellers_stay_in_track_witness:
  "exact_pixel 0 \<and> exact_pixel 55 \<and> exact_pixel 5 \<and> (5 :: rat) \<le> 55 \<and>
   RedoBrush_scaleValues
     \<lparr>p_x = 0, p_width = 55, p_travellerWidth = 5, p_gap = 1, p_data = [(), (), (), (), (), ()],
      p_startIndex = Num 0, p_endIndex = Num 5\<rparr> = Some [0, 10, 20, 30, 40, 50] \<and>
   initial_travellerPositions
     \<lparr>p_x = 0, p_width = 55, p_travellerWidth = 5, p_gap = 1, p_data = [(), (), (), (), (), ()],
      p_startIndex = Num 0, p_endIndex = Num 5\<rparr> = Some \<lparr>tp_startX = 0, tp_endX = 50\<rparr> \<and>
   travellerPositions (run_events
     \<lparr>p_x = 0, p_width = 55, p_travellerWidth = 5, p_gap = 1, p_data = [(), (), (), (), (), ()],
      p_startIndex = Num 0, p_endIndex = Num 5\<rparr>
     [0, 10, 20, 30, 40, 50]
     \<lparr>isTravellerMoving = False, isSlideMoving = False, movingTravellerId = StartX,
      brushMoveStartX = 0, slideMoveStartX = 0,
      travellerPositions = \<lparr>tp_startX = 0, tp_endX = 50\<rparr>\<rparr>
     [TravellerDragStart StartX 10, Drag 35, Drag 105, Drag 97, DragEnd,
      KeyDown ArrowLeft EndX, SlideDragStart 3, Drag (- 4), Drag (- 200), DragEnd])
   = \<lparr>tp_startX = 0, tp_endX = 8\<rparr> \<and>
   in_track
     \<lparr>p_x = 0, p_width = 55, p_travellerWidth = 5, p_gap = 1, p_data = [(), (), (), (), (), ()],
      p_startIndex = Num 0, p_endIndex = Num 5\<rparr>
     (tp_startX (travellerPositions (run_events
        \<lparr>p_x = 0, p_width = 55, p_travellerWidth = 5, p_gap = 1, p_data = [(), (), (), (), (), ()],
         p_startIndex = Num 0, p_endIndex = Num 5\<rparr>
        [0, 10, 20, 30, 40, 50]
        \<lparr>isTravellerMoving = False, isSlideMoving = False, movingTravellerId = StartX,
         brushMoveStartX = 0, slideMoveStartX = 0,
         travellerPositions = \<lparr>tp_startX = 0, tp_endX = 50\<rparr>\<rparr>
        [TravellerDragStart StartX 10, Drag 35, Drag 105, Drag 97, DragEnd,
         KeyDown ArrowLeft EndX, SlideDragStart 3, Drag (- 4), Drag (- 200), DragEnd]))) \<and>
   in_track
     \<lparr>p_x = 0, p_width = 55, p_travellerWidth = 5, p_gap = 1, p_data = [(), (), (), (), (), ()],
      p_startIndex = Num 0, p_endIndex = Num 5\<rparr>
     (tp_endX (travellerPositions (run_events
        \<lparr>p_x = 0, p_width = 55, p_travellerWidth = 5, p_gap = 1, p_data = [(), (), (), (), (), ()],
         p_startIndex = Num 0, p_endIndex = Num 5\<rparr>
        [0, 10, 20, 30, 40, 50]
        \<lparr>isTravellerMoving = False, isSlideMoving = False, movingTravellerId = StartX,
         brushMoveStartX = 0, slideMoveStartX = 0,
         travellerPositions = \<lparr>tp_startX = 0, tp_endX = 50\<rparr>\<rparr>
        [TravellerDragStart StartX 10, Drag 35, Drag 105, Drag 97, DragEnd,
         KeyDown ArrowLeft EndX, SlideDragStart 3, Drag (- 4), Drag (- 200), DragEnd])))"
proof -
  let ?props = "\<lparr>p_x = 0, p_width = 55, p_travellerWidth = 5, p_gap = 1,
      p_data = [(), (), (), (), (), ()], p_startIndex = Num 0, p_endIndex = Num 5\<rparr>"
  let ?sv = "[0, 10, 20, 30, 40, 50] :: rat list"
  let ?st0 = "\<lparr>isTravellerMoving = False, isSlideMoving = False, movingTravellerId = StartX,
      brushMoveStartX = 0, slideMoveStartX = 0,
      travellerPositions = \<lparr>tp_startX = 0, tp_endX = 50\<rparr>\<rparr>"
  let ?evs = "[TravellerDragStart StartX 10, Drag 35, Drag 105, Drag 97, DragEnd,
      KeyDown ArrowLeft EndX, SlideDragStart 3, Drag (- 4), Drag (- 200), DragEnd]"
  have x: "exact_pixel (p_x ?props)" and w: "exact_pixel (p_width ?props)"
    and t: "exact_pixel (p_travellerWidth ?props)"
    and e: "exact_pixel 0" "exact_pixel 55" "exact_pixel 5"
    by (simp_all add: exact_pixel_def)
  have g: "p_travellerWidth ?props \<le> p_width ?props" by simp
  have sv: "RedoBrush_scaleValues ?props = Some ?sv" by code_simp
  have ints: "\<forall>v\<in>set ?sv. v \<in> \<int>" by simp
  have init: "initial_travellerPositions ?props = Some \<lparr>tp_startX = 0, tp_endX = 50\<rparr>"
    by code_simp
  then have init': "initial_travellerPositions ?props = Some (travellerPositions ?st0)" by simp
  have m: "\<not> isTravellerMoving ?st0" "\<not> isSlideMoving ?st0" by simp_all
  have evs: "\<forall>ev\<in>set ?evs. exact_event ev" by (simp add: exact_pixel_def)
  have run: "travellerPositions (run_events ?props ?sv ?st0 ?evs) = \<lparr>tp_startX = 0, tp_endX = 8\<rparr>"
    by code_simp
  from travellers_stay_in_track [OF x w t g sv ints init' m evs]
  have "in_track ?props (tp_startX (travellerPositions (run_events ?props ?sv ?st0 ?evs)))"
    and "in_track ?props (tp_endX (travellerPositions (run_events ?props ?sv ?st0 ?evs)))"
    by simp_all
  with e sv init run show ?thesis by simp
qed

text \<open>
  Claim C6, as stated, fails for a traveller whose position is not a coordinate of the
  table, as after a pointer drag: the key then does nothing, although the move to the
  adjacent coordinate would neither pass an end of the table nor place the start
  traveller at or after the end traveller. With the coordinates 0, 10, ..., 50, after the
  start traveller has been dragged from 0 to 25, ArrowRight on it leaves it at 25 (the
  next coordinate, 30, is in the table and before the end traveller at 50).
\<close>

theorem keyboard_off_table_counterexample:
  "travellerPositions (run_events
     \<lparr>p_x = 0, p_width = 55, p_travellerWidth = 5, p_gap = 1, p_data = [(), (), (), (), (), ()],
      p_startIndex = Num 0, p_endIndex = Num 5\<rparr>
     [0, 10, 20, 30, 40, 50]
     \<lparr>isTravellerMoving = False, isSlideMoving = False, movingTravellerId = StartX,
      brushMoveStartX = 0, slideMoveStartX = 0,
      travellerPositions = \<lparr>tp_startX = 0, tp_endX = 50\<rparr>\<rparr>
     [TravellerDragStart StartX 0, Drag 25, DragEnd])
   = \<lparr>tp_startX = 25, tp_endX = 50\<rparr> \<and>
   handleTravellerMoveKeyboard
     \<lparr>p_x = 0, p_width = 55, p_travellerWidth = 5, p_gap = 1, p_data = [(), (), (), (), (), ()],
      p_startIndex = Num 0, p_endIndex = Num 5\<rparr>
     [0, 10, 20, 30, 40, 50]
     \<lparr>isTravellerMoving = False, isSlideMoving = False, movingTravellerId = StartX,
      brushMoveStartX = 25, slideMoveStartX = 0,
      travellerPositions = \<lparr>tp_startX = 25, tp_endX = 50\<rparr>\<rparr>
     ArrowRight StartX
   = (\<lparr>isTravellerMoving = False, isSlideMoving = False, movingTravellerId = StartX,
       brushMoveStartX = 25, slideMoveStartX = 0,
       travellerPositions = \<lparr>tp_startX = 25, tp_endX = 50\<rparr>\<rparr>, []) \<and>
   indexOf [0, 10, 20, 30, 40, 50] 25 = - 1 \<and>
   [0, 10, 20, 30, 40, 50 :: rat] ! 3 = 30 \<and> (25 :: rat) < 30 \<and> (30 :: rat) < 50"
  by code_simp

text \<open>
  Claim C6, amended. Let \<open>i\<close> be the index of the traveller's position in the coordinate
  table (\<open>indexOf\<close>; it is \<open>-1\<close> exactly when the position is not a coordinate of the
  table) and \<open>j\<close> the index next to it in the direction of the arrow key. If the position
  is in the table, \<open>j\<close> is an index of the table and the move leaves the start traveller
  before the end traveller, then the traveller moves to the coordinate at \<open>j\<close>. The move is
  refused, with the state unchanged and no call of \<open>onChange\<close>, whenever \<open>j\<close> is past either
  end of the table or the move would place \<open>start >= end\<close>, and also whenever the position
  is not a coordinate of the table. In particular ArrowRight on the end traveller at the
  last coordinate does nothing.
\<close>

theorem handleTravellerMoveKeyboard_moves_or_refuses:
  "(let tp = travellerPositions st;
        i = indexOf scaleValues (tp_get tp id');
        j = i + direction_of key;
        tp' = tp_set tp id' (scaleValues ! nat j);
        r = handleTravellerMoveKeyboard props scaleValues st key id'
    in (i = - 1 \<longleftrightarrow> tp_get tp id' \<notin> set scaleValues) \<and>
       (i \<noteq> - 1 \<longrightarrow> 0 \<le> i \<and> i < int (length scaleValues) \<and> scaleValues ! nat i = tp_get tp id') \<and>
       (i \<noteq> - 1 \<and> 0 \<le> j \<and> j < int (length scaleValues) \<and> tp_startX tp' < tp_endX tp' \<longrightarrow>
          fst r = st\<lparr>travellerPositions := tp'\<rparr>) \<and>
       (i = - 1 \<or> j < 0 \<or> j \<ge> int (length scaleValues) \<or> tp_startX tp' \<ge> tp_endX tp' \<longrightarrow>
          r = (st, [])) \<and>
       (id' = EndX \<and> key = ArrowRight \<and> i = int (length scaleValues) - 1 \<longrightarrow> r = (st, [])))"
proof -
  let ?tp = "travellerPositions st"
  let ?i = "indexOf scaleValues (tp_get ?tp id')"
  let ?j = "?i + direction_of key"
  let ?tp' = "tp_set ?tp id' (scaleValues ! nat ?j)"
  let ?r = "handleTravellerMoveKeyboard props scaleValues st key id'"
  have inv: "(tp_startX ?tp' \<ge> tp_endX ?tp') =
     ((id' = StartX \<and> scaleValues ! nat ?j \<ge> tp_endX ?tp) \<or> (id' = EndX \<and> scaleValues ! nat ?j \<le> tp_startX ?tp))"
    by (cases id') simp_all
  have r: "?r = (if ?i = - 1 then (st, [])
                 else if ?j = - 1 \<or> ?j \<ge> int (length scaleValues) then (st, [])
                 else if tp_startX ?tp' \<ge> tp_endX ?tp' then (st, [])
                 else (st\<lparr>travellerPositions := ?tp'\<rparr>,
                       [getIndex (tp_startX ?tp) (tp_endX ?tp) scaleValues (p_gap props) (p_data props)]))"
    unfolding inv by (simp add: handleTravellerMoveKeyboard_def Let_def)
  have jneg: "?j < 0 \<Longrightarrow> ?i = - 1 \<or> ?j = - 1"
    using indexOf_range [of scaleValues "tp_get ?tp id'"] by (cases key) auto
  have m: "?i = - 1 \<longleftrightarrow> tp_get ?tp id' \<notin> set scaleValues"
    by (rule indexOf_minus1_iff)
  have a: "?i \<noteq> - 1 \<longrightarrow> 0 \<le> ?i \<and> ?i < int (length scaleValues) \<and> scaleValues ! nat ?i = tp_get ?tp id'"
    using indexOf_range [of scaleValues "tp_get ?tp id'"] indexOf_nth [of scaleValues "tp_get ?tp id'"]
    by auto
  have b: "?i \<noteq> - 1 \<and> 0 \<le> ?j \<and> ?j < int (length scaleValues) \<and> tp_startX ?tp' < tp_endX ?tp' \<longrightarrow>
          fst ?r = st\<lparr>travellerPositions := ?tp'\<rparr>"
    by (auto simp: r)
  have c: "?i = - 1 \<or> ?j < 0 \<or> ?j \<ge> int (length scaleValues) \<or> tp_startX ?tp' \<ge> tp_endX ?tp' \<longrightarrow> ?r = (st, [])"
    using jneg by (auto simp: r)
  have d: "id' = EndX \<and> key = ArrowRight \<and> ?i = int (length scaleValues) - 1 \<longrightarrow> ?r = (st, [])"
  proof
    assume h: "id' = EndX \<and> key = ArrowRight \<and> ?i = int (length scaleValues) - 1"
    then have "?j \<ge> int (length scaleValues)" by auto
    with c show "?r = (st, [])" by blast
  qed
  from m a b c d show ?thesis
    unfolding Let_def by (intro conjI)
qed

theorem handleTravellerMoveKeyboard_moves_or_refuses_witness:
  "fst (handleTravellerMoveKeyboard
     \<lparr>p_x = 0, p_width = 55, p_travellerWidth = 5, p_gap = 1, p_data = [(), (), (), (), (), ()],
      p_startIndex = Num 2, p_endIndex = Num 5\<rparr>
     [0, 10, 20, 30, 40, 50]
     \<lparr>isTravellerMoving = False, isSlideMoving = False, movingTravellerId = StartX,
      brushMoveStartX = 0, slideMoveStartX = 0,
      travellerPositions = \<lparr>tp_startX = 20, tp_endX = 50\<rparr>\<rparr>
     ArrowRight StartX)
   = \<lparr>isTravellerMoving = False, isSlideMoving = False, movingTravellerId = StartX,
       brushMoveStartX = 0, slideMoveStartX = 0,
       travellerPositions = \<lparr>tp_startX = 30, tp_endX = 50\<rparr>\<rparr> \<and>
   handleTravellerMoveKeyboard
     \<lparr>p_x = 0, p_width = 55, p_travellerWidth = 5, p_gap = 1, p_data = [(), (), (), (), (), ()],
      p_startIndex = Num 2, p_endIndex = Num 5\<rparr>
     [0, 10, 20, 30, 40, 50]
     \<lparr>isTravellerMoving = False, isSlideMoving = False, movingTravellerId = StartX,
      brushMoveStartX = 0, slideMoveStartX = 0,
      travellerPositions = \<lparr>tp_startX = 20, tp_endX = 50\<rparr>\<rparr>
     ArrowRight EndX
   = (\<lparr>isTravellerMoving = False, isSlideMoving = False, movingTravellerId = StartX,
       brushMoveStartX = 0, slideMoveStartX = 0,
       travellerPositions = \<lparr>tp_startX = 20, tp_endX = 50\<rparr>\<rparr>, []) \<and>
   handleTravellerMoveKeyboard
     \<lparr>p_x = 0, p_width = 55, p_travellerWidth = 5, p_gap = 1, p_data = [(), (), (), (), (), ()],
      p_startIndex = Num 2, p_endIndex = Num 5\<rparr>
     [0, 10, 20, 30, 40, 50]
     \<lparr>isTravellerMoving = False, isSlideMoving = False, movingTravellerId = StartX,
      brushMoveStartX = 0, slideMoveStartX = 0,
      travellerPositions = \<lparr>tp_startX = 40, tp_endX = 50\<rparr>\<rparr>
     ArrowRight StartX
   = (\<lparr>isTravellerMoving = False, isSlideMoving = False, movingTravellerId = StartX,
       brushMoveStartX = 0, slideMoveStartX = 0,
       travellerPositions = \<lparr>tp_startX = 40, tp_endX = 50\<rparr>\<rparr>, [])"
proof -
  let ?props = "\<lparr>p_x = 0, p_width = 55, p_travellerWidth = 5, p_gap = 1,
      p_data = [(), (), (), (), (), ()], p_startIndex = Num 2, p_endIndex = Num 5\<rparr>"
  let ?sv = "[0, 10, 20, 30, 40, 50] :: rat list"
  let ?st = "\<lparr>isTravellerMoving = False, isSlideMoving = False, movingTravellerId = StartX,
      brushMoveStartX = 0, slideMoveStartX = 0,
      travellerPositions = \<lparr>tp_startX = 20, tp_endX = 50\<rparr>\<rparr>"
  let ?st4 = "\<lparr>isTravellerMoving = False, isSlideMoving = False, movingTravellerId = StartX,
      brushMoveStartX = 0, slideMoveStartX = 0,
      travellerPositions = \<lparr>tp_startX = 40, tp_endX = 50\<rparr>\<rparr>"
  have i_end: "indexOf ?sv 50 = 5" and i_start: "indexOf ?sv 20 = 2" and i_4: "indexOf ?sv 40 = 4"
    by (simp_all add: indexOf_def)
  have a: "fst (handleTravellerMoveKeyboard ?props ?sv ?st ArrowRight StartX)
      = ?st\<lparr>travellerPositions := \<lparr>tp_startX = 30, tp_endX = 50\<rparr>\<rparr>"
    using handleTravellerMoveKeyboard_moves_or_refuses [of ?st ?sv StartX ArrowRight ?props]
    by (simp add: Let_def i_start)
  have b: "handleTravellerMoveKeyboard ?props ?sv ?st ArrowRight EndX = (?st, [])"
    using handleTravellerMoveKeyboard_moves_or_refuses [of ?st ?sv EndX ArrowRight ?props]
    by (simp add: Let_def i_end)
  have c: "handleTravellerMoveKeyboard ?props ?sv ?st4 ArrowRight StartX = (?st4, [])"
    using handleTravellerMoveKeyboard_moves_or_refuses [of ?st4 ?sv StartX ArrowRight ?props]
    by (simp add: Let_def i_4)
  from a b c show ?thesis by simp
qed

text \<open>
  Claim C4 does not hold for the traveller drag and for the keyboard move. With six data
  points on the track from 0 with width 55 and traveller width 5 (coordinates 0, 10, ..., 50)
  and gap 1: dragging the start traveller from 25 to 45 calls \<open>onChange\<close> with the window
  \<open>(2, 5)\<close> of the positions before the move, while the positions after the move,
  \<open>(45, 50)\<close>, have the window \<open>(4, 5)\<close>; ArrowRight on the start traveller at 20 moves it
  to 30 and calls \<open>onChange\<close> with the window \<open>(2, 5)\<close> of the positions before the move, while
  the positions after the move have the window \<open>(3, 5)\<close>. \<open>BrushInternal\<close> forwards the
  window \<open>(2, 5)\<close> when the current window is \<open>(0, 5)\<close>.
\<close>

theorem change_notification_uses_previous_positions:
  "RedoBrush_scaleValues
     \<lparr>p_x = 0, p_width = 55, p_travellerWidth = 5, p_gap = 1, p_data = [(), (), (), (), (), ()],
      p_startIndex = Num 0, p_endIndex = Num 5\<rparr> = Some [0, 10, 20, 30, 40, 50] \<and>
   handleTravellerMove
     \<lparr>p_x = 0, p_width = 55, p_travellerWidth = 5, p_gap = 1, p_data = [(), (), (), (), (), ()],
      p_startIndex = Num 0, p_endIndex = Num 5\<rparr>
     [0, 10, 20, 30, 40, 50]
     \<lparr>isTravellerMoving = True, isSlideMoving = False, movingTravellerId = StartX,
      brushMoveStartX = 25, slideMoveStartX = 0,
      travellerPositions = \<lparr>tp_startX = 25, tp_endX = 50\<rparr>\<rparr>
     45
   = (\<lparr>isTravellerMoving = True, isSlideMoving = False, movingTravellerId = StartX,
       brushMoveStartX = 45, slideMoveStartX = 0,
       travellerPositions = \<lparr>tp_startX = 45, tp_endX = 50\<rparr>\<rparr>,
      [\<lparr>startIndex = Num 2, endIndex = Num 5\<rparr>]) \<and>
   handleTravellerMoveKeyboard
     \<lparr>p_x = 0, p_width = 55, p_travellerWidth = 5, p_gap = 1, p_data = [(), (), (), (), (), ()],
      p_startIndex = Num 0, p_endIndex = Num 5\<rparr>
     [0, 10, 20, 30, 40, 50]
     \<lparr>isTravellerMoving = False, isSlideMoving = False, movingTravellerId = StartX,
      brushMoveStartX = 0, slideMoveStartX = 0,
      travellerPositions = \<lparr>tp_startX = 20, tp_endX = 50\<rparr>\<rparr>
     ArrowRight StartX
   = (\<lparr>isTravellerMoving = False, isSlideMoving = False, movingTravellerId = StartX,
       brushMoveStartX = 0, slideMoveStartX = 0,
       travellerPositions = \<lparr>tp_startX = 30, tp_endX = 50\<rparr>\<rparr>,
      [\<lparr>startIndex = Num 2, endIndex = Num 5\<rparr>]) \<and>
   getIndex 25 50 [0, 10, 20, 30, 40, 50] 1 [(), (), (), (), (), ()] = \<lparr>startIndex = Num 2, endIndex = Num 5\<rparr> \<and>
   getIndex 45 50 [0, 10, 20, 30, 40, 50] 1 [(), (), (), (), (), ()] = \<lparr>startIndex = Num 4, endIndex = Num 5\<rparr> \<and>
   getIndex 20 50 [0, 10, 20, 30, 40, 50] 1 [(), (), (), (), (), ()] = \<lparr>startIndex = Num 2, endIndex = Num 5\<rparr> \<and>
   getIndex 30 50 [0, 10, 20, 30, 40, 50] 1 [(), (), (), (), (), ()] = \<lparr>startIndex = Num 3, endIndex = Num 5\<rparr> \<and>
   BrushInternal_onChange (Num 0) (Num 5) \<lparr>startIndex = Num 2, endIndex = Num 5\<rparr>
     = [\<lparr>startIndex = Num 2, endIndex = Num 5\<rparr>]"
  by code_simp

end
